theory Spec2Isabelle
  imports Complex_Main
begin

section \<open>The logical core of the VQE dashboard\<close>

text \<open>
  The embedding covers the part of \<^verbatim>\<open>vqe_simulator_dashboard.py\<close> that owns data:
  the fields set up by \<^verbatim>\<open>VQEDashboard.__init__\<close>, \<^verbatim>\<open>button_click\<close>,
  \<^verbatim>\<open>start_data_generation\<close>, \<^verbatim>\<open>generate_new_data_point\<close> and
  \<^verbatim>\<open>check_convergence\<close>. Widget construction, chart drawing and label updates write
  no field of the core and are left out. Python floats are read as real numbers, and
  each call of \<^verbatim>\<open>np.random.random()\<close> is a parameter of the tick.
\<close>

subsection \<open>Data\<close>

text \<open>The three keys of \<^verbatim>\<open>self.data_storage\<close>; no key is ever added or removed.\<close>

datatype vqe_method = normal_vqe | vqe_uccsd_hybrid | vqe_uccsd_hybrid_zne

text \<open>The exceptions the core's list operations can raise.\<close>

datatype error = IndexError | ValueError

text \<open>One entry of \<^verbatim>\<open>data_storage\<close>: the two parallel lists.\<close>

record series =
  iterations :: "nat list"
  energy :: "real list"

text \<open>
  The fields of the dashboard object. \<open>timer_pending\<close> is not a field of the class: it
  stands for the one entry that \<^verbatim>\<open>self.root.after(2000, self.start_data_generation)\<close>
  puts into the event queue of Tk, the only place where a tick is scheduled.
\<close>

record dashboard =
  data_storage :: "vqe_method \<Rightarrow> series"
  current_iteration :: nat
  simulation_stopped :: bool
  converged_methods :: "vqe_method set"
  timer_pending :: bool

definition convergence_threshold :: real where
  "convergence_threshold = 0.001"

definition convergence_window :: nat where
  "convergence_window = 5"

text \<open>The order in which Python iterates over \<^verbatim>\<open>self.data_storage\<close> (insertion order).\<close>

definition method_keys :: "vqe_method list" where
  "method_keys = [normal_vqe, vqe_uccsd_hybrid, vqe_uccsd_hybrid_zne]"

subsection \<open>Python list operations\<close>

text \<open>\<^verbatim>\<open>xs[-1]\<close> raises IndexError on the empty list.\<close>

definition py_last :: "'a list \<Rightarrow> error + 'a" where
  "py_last xs = (if xs = [] then Inl IndexError else Inr (last xs))"

text \<open>\<^verbatim>\<open>xs[-n:]\<close> for positive \<open>n\<close>: the last \<open>n\<close> elements, or all of a shorter list.\<close>

definition py_tail :: "nat \<Rightarrow> 'a list \<Rightarrow> 'a list" where
  "py_tail n xs = drop (length xs - n) xs"

text \<open>\<^verbatim>\<open>max(xs)\<close> and \<^verbatim>\<open>min(xs)\<close> raise ValueError on the empty list.\<close>

definition py_max :: "real list \<Rightarrow> error + real" where
  "py_max xs = (case xs of [] \<Rightarrow> Inl ValueError | x # r \<Rightarrow> Inr (fold max r x))"

definition py_min :: "real list \<Rightarrow> error + real" where
  "py_min xs = (case xs of [] \<Rightarrow> Inl ValueError | x # r \<Rightarrow> Inr (fold min r x))"

subsection \<open>Construction and restart\<close>

text \<open>The fields as \<^verbatim>\<open>__init__\<close> sets them, before it calls \<^verbatim>\<open>start_data_generation\<close>.\<close>

definition init_fields :: dashboard where
  "init_fields =
     \<lparr>data_storage = (\<lambda>m. \<lparr>iterations = [], energy = []\<rparr>),
      current_iteration = 0,
      simulation_stopped = False,
      converged_methods = {},
      timer_pending = False\<rparr>"

text \<open>
  \<^verbatim>\<open>button_click\<close>: the restart. The only other effect is
  \<^verbatim>\<open>self.root.after(2000, lambda: self.update_status(...))\<close>, a status text.
\<close>

definition button_click :: "string \<Rightarrow> dashboard \<Rightarrow> dashboard" where
  "button_click button_text s =
     (if button_text = ''Run Simulation''
      then s\<lparr>current_iteration := 0,
             converged_methods := {},
             simulation_stopped := False,
             data_storage := (\<lambda>m. (data_storage s m)\<lparr>iterations := [], energy := []\<rparr>)\<rparr>
      else s)"

subsection \<open>Convergence check\<close>

text \<open>The body of the loop of \<^verbatim>\<open>check_convergence\<close> for one method.\<close>

definition check_method :: "vqe_method \<Rightarrow> dashboard \<Rightarrow> error + dashboard" where
  "check_method method_name s =
     (if method_name \<in> converged_methods s then Inr s
      else
        let energies = energy (data_storage s method_name) in
        if length energies \<ge> convergence_window then
          let recent_energies = py_tail convergence_window energies in
          (case py_max recent_energies of
             Inl e \<Rightarrow> Inl e
           | Inr mx \<Rightarrow>
               (case py_min recent_energies of
                  Inl e \<Rightarrow> Inl e
                | Inr mn \<Rightarrow>
                    let energy_range = mx - mn in
                    if energy_range < convergence_threshold
                    then Inr (s\<lparr>converged_methods := insert method_name (converged_methods s)\<rparr>)
                    else Inr s))
        else Inr s)"

fun check_methods :: "vqe_method list \<Rightarrow> dashboard \<Rightarrow> error + dashboard" where
  "check_methods [] s = Inr s"
| "check_methods (m # ms) s =
     (case check_method m s of Inl e \<Rightarrow> Inl e | Inr s' \<Rightarrow> check_methods ms s')"

definition check_convergence :: "dashboard \<Rightarrow> error + dashboard" where
  "check_convergence s = check_methods method_keys s"

subsection \<open>Sample generation\<close>

text \<open>
  The three \<^verbatim>\<open>if\<close> blocks at the head of \<^verbatim>\<open>generate_new_data_point\<close>; \<open>u\<close> is the
  value of the block's call of \<^verbatim>\<open>np.random.random()\<close>.
\<close>

fun new_energy :: "dashboard \<Rightarrow> vqe_method \<Rightarrow> real \<Rightarrow> error + real" where
  "new_energy s normal_vqe u =
     (if normal_vqe \<notin> converged_methods s
      then Inr (- 0.8 - 0.4 * (1 - exp (- real (current_iteration s) / 20)) + 0.08 * u)
      else (case py_last (energy (data_storage s normal_vqe)) of
              Inl e \<Rightarrow> Inl e
            | Inr l \<Rightarrow> Inr (l + 0.001 * (u - 0.5))))"
| "new_energy s vqe_uccsd_hybrid u =
     (if vqe_uccsd_hybrid \<notin> converged_methods s
      then Inr (- 1.0 - 0.4 * (1 - exp (- real (current_iteration s) / 10)) + 0.03 * u)
      else (case py_last (energy (data_storage s vqe_uccsd_hybrid)) of
              Inl e \<Rightarrow> Inl e
            | Inr l \<Rightarrow> Inr (l + 0.001 * (u - 0.5))))"
| "new_energy s vqe_uccsd_hybrid_zne u =
     (if vqe_uccsd_hybrid_zne \<notin> converged_methods s
      then Inr (- 1.1 - 0.5 * (1 - exp (- real (current_iteration s) / 8)) + 0.02 * u)
      else (case py_last (energy (data_storage s vqe_uccsd_hybrid_zne)) of
              Inl e \<Rightarrow> Inl e
            | Inr l \<Rightarrow> Inr (l + 0.0005 * (u - 0.5))))"

text \<open>The draws of one tick, in the order of the calls: normal, hybrid, ZNE.\<close>

type_synonym draws = "real \<times> real \<times> real"

fun draw_of :: "draws \<Rightarrow> vqe_method \<Rightarrow> real" where
  "draw_of (u1, u2, u3) normal_vqe = u1"
| "draw_of (u1, u2, u3) vqe_uccsd_hybrid = u2"
| "draw_of (u1, u2, u3) vqe_uccsd_hybrid_zne = u3"

text \<open>\<^verbatim>\<open>np.random.random()\<close> returns a value of the half-open interval from 0 to 1.\<close>

definition draw_ok :: "real \<Rightarrow> bool" where
  "draw_ok u = (0 \<le> u \<and> u < 1)"

fun draws_ok :: "draws \<Rightarrow> bool" where
  "draws_ok (u1, u2, u3) = (draw_ok u1 \<and> draw_ok u2 \<and> draw_ok u3)"

text \<open>The three pairs of \<^verbatim>\<open>append\<close> calls.\<close>

definition store :: "nat \<Rightarrow> real \<Rightarrow> real \<Rightarrow> real \<Rightarrow> dashboard \<Rightarrow> dashboard" where
  "store iteration normal_energy hybrid_energy zne_energy s =
     s\<lparr>data_storage := (\<lambda>m.
          let v = (case m of normal_vqe \<Rightarrow> normal_energy
                     | vqe_uccsd_hybrid \<Rightarrow> hybrid_energy
                     | vqe_uccsd_hybrid_zne \<Rightarrow> zne_energy)
          in (data_storage s m)\<lparr>iterations := iterations (data_storage s m) @ [iteration],
                                energy := energy (data_storage s m) @ [v]\<rparr>)\<rparr>"

text \<open>The closing block: keep the last 50 points, guarded by the length of one list.\<close>

definition keep_last_50 :: "dashboard \<Rightarrow> dashboard" where
  "keep_last_50 s =
     (if length (iterations (data_storage s normal_vqe)) > 50
      then s\<lparr>data_storage := (\<lambda>m.
               (data_storage s m)\<lparr>iterations := py_tail 50 (iterations (data_storage s m)),
                                     energy := py_tail 50 (energy (data_storage s m))\<rparr>)\<rparr>
      else s)"

text \<open>The status block sets the stop flag when all three methods have converged.\<close>

definition update_stop :: "dashboard \<Rightarrow> dashboard" where
  "update_stop s =
     (if card (converged_methods s) = 3 then s\<lparr>simulation_stopped := True\<rparr> else s)"

definition generate_new_data_point :: "dashboard \<Rightarrow> draws \<Rightarrow> error + dashboard" where
  "generate_new_data_point s d =
     (let iteration = current_iteration s in
      case new_energy s normal_vqe (draw_of d normal_vqe) of
        Inl e \<Rightarrow> Inl e
      | Inr normal_energy \<Rightarrow>
      (case new_energy s vqe_uccsd_hybrid (draw_of d vqe_uccsd_hybrid) of
        Inl e \<Rightarrow> Inl e
      | Inr hybrid_energy \<Rightarrow>
      (case new_energy s vqe_uccsd_hybrid_zne (draw_of d vqe_uccsd_hybrid_zne) of
        Inl e \<Rightarrow> Inl e
      | Inr zne_energy \<Rightarrow>
      (case check_convergence (store iteration normal_energy hybrid_energy zne_energy s) of
        Inl e \<Rightarrow> Inl e
      | Inr s2 \<Rightarrow>
          let s3 = update_stop s2;
              s4 = s3\<lparr>current_iteration := current_iteration s3 + 1\<rparr>
          in Inr (keep_last_50 s4)))))"

subsection \<open>The tick and the event loop\<close>

text \<open>
  \<^verbatim>\<open>start_data_generation\<close>, run as a callback: the queue entry that started it is
  consumed by the caller, and a new one is made only on the last line.
\<close>

definition start_data_generation :: "dashboard \<Rightarrow> draws \<Rightarrow> error + dashboard" where
  "start_data_generation s d =
     (if simulation_stopped s \<or> card (converged_methods s) \<ge> 3
      then (if card (converged_methods s) \<ge> 3
            then Inr (s\<lparr>simulation_stopped := True\<rparr>)
            else Inr s)
      else (case generate_new_data_point s d of
              Inl e \<Rightarrow> Inl e
            | Inr s' \<Rightarrow>
                if \<not> simulation_stopped s' then Inr (s'\<lparr>timer_pending := True\<rparr>)
                else Inr s'))"

text \<open>
  What the event loop can run: the timer callback, which Tk runs only for a queue entry
  and which removes that entry, and a click on a button with the given text.
\<close>

datatype event = Timer draws | Click string

fun step :: "event \<Rightarrow> dashboard \<Rightarrow> error + dashboard" where
  "step (Timer d) s =
     (if timer_pending s then start_data_generation (s\<lparr>timer_pending := False\<rparr>) d
      else Inr s)"
| "step (Click button_text) s = Inr (button_click button_text s)"

fun exec :: "event list \<Rightarrow> dashboard \<Rightarrow> error + dashboard" where
  "exec [] s = Inr s"
| "exec (e # es) s = (case step e s of Inl x \<Rightarrow> Inl x | Inr s' \<Rightarrow> exec es s')"

text \<open>
  A whole session: \<^verbatim>\<open>__init__\<close> makes the first call of \<^verbatim>\<open>start_data_generation\<close>
  itself, then \<^verbatim>\<open>mainloop\<close> runs the events.
\<close>

definition session :: "draws \<Rightarrow> event list \<Rightarrow> error + dashboard" where
  "session d0 es =
     (case start_data_generation init_fields d0 of Inl x \<Rightarrow> Inl x | Inr s \<Rightarrow> exec es s)"

section \<open>Derived notions\<close>

text \<open>The test of \<^verbatim>\<open>check_convergence\<close> in the words of the specification: at least five
  energies, and the largest of the last five less than 0.001 above the smallest.\<close>

definition window_converged :: "real list \<Rightarrow> bool" where
  "window_converged es =
     (5 \<le> length es \<and> Max (set (py_tail 5 es)) - Min (set (py_tail 5 es)) < 0.001)"

text \<open>The jitter constants of the specification for a converged method.\<close>

fun jitter :: "vqe_method \<Rightarrow> real" where
  "jitter normal_vqe = 0.001"
| "jitter vqe_uccsd_hybrid = 0.001"
| "jitter vqe_uccsd_hybrid_zne = 0.0005"

text \<open>The table of the specification: base, amplitude, decay and noise of each method.\<close>

fun curve_params :: "vqe_method \<Rightarrow> real \<times> real \<times> real \<times> real" where
  "curve_params normal_vqe = (- 0.8, 0.4, 20, 0.08)"
| "curve_params vqe_uccsd_hybrid = (- 1.0, 0.4, 10, 0.03)"
| "curve_params vqe_uccsd_hybrid_zne = (- 1.1, 0.5, 8, 0.02)"

text \<open>The curve of the specification for a method that has not converged.\<close>

definition decay_curve :: "vqe_method \<Rightarrow> nat \<Rightarrow> real \<Rightarrow> real" where
  "decay_curve m i u =
     (case curve_params m of (base, amplitude, decay, noise) \<Rightarrow>
        base - amplitude * (1 - exp (- real i / decay)) + noise * u)"

text \<open>The value a tick appends for a method, when the read of the last energy succeeds.\<close>

definition next_value :: "dashboard \<Rightarrow> draws \<Rightarrow> vqe_method \<Rightarrow> real" where
  "next_value s d m =
     (if m \<notin> converged_methods s then decay_curve m (current_iteration s) (draw_of d m)
      else last (energy (data_storage s m)) + jitter m * (draw_of d m - 0.5))"

text \<open>Every converged method has an energy to read with \<^verbatim>\<open>energy[-1]\<close>.\<close>

definition last_readable :: "dashboard \<Rightarrow> bool" where
  "last_readable s = (\<forall>m \<in> converged_methods s. energy (data_storage s m) \<noteq> [])"

text \<open>The energies of a method at the moment of the convergence check of a tick.\<close>

definition appended :: "dashboard \<Rightarrow> draws \<Rightarrow> vqe_method \<Rightarrow> real list" where
  "appended s d m = energy (data_storage s m) @ [next_value s d m]"

text \<open>The state of a tick after the appends and the convergence check.\<close>

definition after_check :: "dashboard \<Rightarrow> draws \<Rightarrow> dashboard" where
  "after_check s d =
     (let s1 = store (current_iteration s) (next_value s d normal_vqe)
                 (next_value s d vqe_uccsd_hybrid) (next_value s d vqe_uccsd_hybrid_zne) s
      in s1\<lparr>converged_methods :=
              converged_methods s \<union> {m. window_converged (appended s d m)}\<rparr>)"

text \<open>Invariants of the event loop. A converged method has at least five energies.\<close>

definition conv_have_window :: "dashboard \<Rightarrow> bool" where
  "conv_have_window s = (\<forall>m \<in> converged_methods s. 5 \<le> length (energy (data_storage s m)))"

text \<open>The stop flag is set exactly when the three methods have converged.\<close>

definition stop_iff_all :: "dashboard \<Rightarrow> bool" where
  "stop_iff_all s = (simulation_stopped s \<longleftrightarrow> card (converged_methods s) = 3)"

text \<open>The six lists have one length, at most 50.\<close>

definition aligned :: "dashboard \<Rightarrow> bool" where
  "aligned s =
     (\<forall>m. length (iterations (data_storage s m)) = length (iterations (data_storage s normal_vqe))
        \<and> length (energy (data_storage s m)) = length (iterations (data_storage s normal_vqe))
        \<and> length (iterations (data_storage s normal_vqe)) \<le> 50)"

text \<open>A stopped dashboard has no tick in the queue.\<close>

definition stop_unschedules :: "dashboard \<Rightarrow> bool" where
  "stop_unschedules s = (simulation_stopped s \<longrightarrow> \<not> timer_pending s)"

text \<open>The four invariants together.\<close>

definition core_inv :: "dashboard \<Rightarrow> bool" where
  "core_inv s = (conv_have_window s \<and> stop_iff_all s \<and> aligned s \<and> stop_unschedules s)"

text \<open>A concrete session. In its first five ticks the draws of \<open>normal_vqe\<close> cancel the
  decay of the curve, so that its five energies are all \<open>-0.8\<close> and it converges at
  iteration 4; afterwards its draws are 0. The draws of the two other methods are 0.\<close>

fun demo_energy :: "vqe_method \<Rightarrow> nat \<Rightarrow> real" where
  "demo_energy normal_vqe j = (if j \<le> 4 then - 0.8 else - 0.8 - 0.0005 * real (j - 4))"
| "demo_energy vqe_uccsd_hybrid j = - 1.0 - 0.4 * (1 - exp (- real j / 10))"
| "demo_energy vqe_uccsd_hybrid_zne j = - 1.1 - 0.5 * (1 - exp (- real j / 8))"

text \<open>The draws of tick \<open>k\<close> of that session.\<close>

definition demo_draws :: "nat \<Rightarrow> draws" where
  "demo_draws k = (if k \<le> 4 then 5 * (1 - exp (- real k / 20)) else 0, 0, 0)"

text \<open>The dashboard after \<open>k\<close> ticks of that session (for \<open>k\<close> up to 8), with the queue entry \<open>p\<close>.\<close>

definition demo_state :: "nat \<Rightarrow> bool \<Rightarrow> dashboard" where
  "demo_state k p =
     \<lparr>data_storage = (\<lambda>m. \<lparr>iterations = [0..<k], energy = map (demo_energy m) [0..<k]\<rparr>),
      current_iteration = k,
      simulation_stopped = False,
      converged_methods = (if 5 \<le> k then {normal_vqe} else {}),
      timer_pending = p\<rparr>"

text \<open>The timer events of ticks \<open>a\<close> to \<open>b - 1\<close> of the concrete session.\<close>

definition demo_events :: "nat \<Rightarrow> nat \<Rightarrow> event list" where
  "demo_events a b = map (\<lambda>k. Timer (demo_draws k)) [a..<b]"

text \<open>A session in which every draw is 0.\<close>

definition quiet_draws :: draws where
  "quiet_draws = (0, 0, 0)"

definition quiet_events :: "nat \<Rightarrow> event list" where
  "quiet_events n = replicate n (Timer quiet_draws)"

text \<open>The last four energies of every open method lie on its curve.\<close>

definition on_curve :: "dashboard \<Rightarrow> bool" where
  "on_curve s =
     (\<forall>m. m \<notin> converged_methods s \<longrightarrow>
        py_tail 4 (energy (data_storage s m)) =
        map (\<lambda>i. decay_curve m i 0) [current_iteration s - 4..<current_iteration s])"

definition quiet_inv :: "dashboard \<Rightarrow> bool" where
  "quiet_inv s =
     (core_inv s \<and> (simulation_stopped s
        \<or> (timer_pending s \<and> on_curve s \<and> current_iteration s \<le> 184)))"

text \<open>The dashboard after the 185 ticks of the session without noise.\<close>

definition quiet_final :: dashboard where
  "quiet_final =
     (case session quiet_draws (quiet_events 184) of Inr s \<Rightarrow> s | Inl e \<Rightarrow> init_fields)"

text \<open>What a timer event appends to the series of a method: the pair of the iteration
  and the energy of the tick when the tick runs, nothing otherwise.\<close>

definition appended_pair :: "dashboard \<Rightarrow> draws \<Rightarrow> vqe_method \<Rightarrow> (nat \<times> real) list" where
  "appended_pair s d m =
     (if timer_pending s \<and> \<not> simulation_stopped s \<and> card (converged_methods s) < 3
      then (case new_energy s m (draw_of d m) of
              Inr v \<Rightarrow> [(current_iteration s, v)]
            | Inl e \<Rightarrow> [])
      else [])"

text \<open>All pairs appended to the series of a method since the last restart, oldest first,
  over the events from a state; \<open>h\<close> holds the pairs appended before.\<close>

fun history :: "event list \<Rightarrow> dashboard \<Rightarrow> vqe_method \<Rightarrow> (nat \<times> real) list
    \<Rightarrow> (nat \<times> real) list" where
  "history [] s m h = h"
| "history (Timer d # es) s m h =
     (case step (Timer d) s of
        Inl x \<Rightarrow> h
      | Inr s' \<Rightarrow> history es s' m (h @ appended_pair s d m))"
| "history (Click b # es) s m h =
     history es (button_click b s) m (if b = ''Run Simulation'' then [] else h)"

text \<open>The same over a whole session, whose first tick is the call made by the constructor.\<close>

definition session_history :: "draws \<Rightarrow> event list \<Rightarrow> vqe_method \<Rightarrow> (nat \<times> real) list" where
  "session_history d0 es m =
     history (Timer d0 # es) (init_fields\<lparr>timer_pending := True\<rparr>) m []"

section \<open>Lemmas on the operations\<close>

lemma py_max_Max: "xs \<noteq> [] \<Longrightarrow> py_max xs = Inr (Max (set xs))"
  by (cases xs) (simp_all add: py_max_def Max.set_eq_fold [symmetric])

lemma py_min_Min: "xs \<noteq> [] \<Longrightarrow> py_min xs = Inr (Min (set xs))"
  by (cases xs) (simp_all add: py_min_def Min.set_eq_fold [symmetric])

lemma py_tail_nonempty: "0 < n \<Longrightarrow> xs \<noteq> [] \<Longrightarrow> py_tail n xs \<noteq> []"
  by (cases xs rule: rev_cases) (simp_all add: py_tail_def)

lemma check_method_eq:
  "check_method m s =
     Inr (if m \<notin> converged_methods s \<and> window_converged (energy (data_storage s m))
          then s\<lparr>converged_methods := insert m (converged_methods s)\<rparr> else s)"
proof (cases "5 \<le> length (energy (data_storage s m))")
  case True
  then have ne: "py_tail 5 (energy (data_storage s m)) \<noteq> []"
    by (intro py_tail_nonempty) auto
  show ?thesis using True
    by (simp add: check_method_def convergence_window_def convergence_threshold_def
        window_converged_def py_max_Max [OF ne] py_min_Min [OF ne] Let_def)
next
  case False
  then show ?thesis
    by (simp add: check_method_def convergence_window_def window_converged_def)
qed

lemma method_UNIV: "(UNIV :: vqe_method set) = {normal_vqe, vqe_uccsd_hybrid, vqe_uccsd_hybrid_zne}"
  using vqe_method.exhaust by auto

lemma check_method_cases:
  "check_method m s = Inr (s\<lparr>converged_methods := converged_methods s \<union>
       (if window_converged (energy (data_storage s m)) then {m} else {})\<rparr>)"
  by (simp add: check_method_eq insert_absorb)

lemma check_methods_eq:
  "check_methods ms s =
     Inr (s\<lparr>converged_methods :=
             converged_methods s \<union> {m \<in> set ms. window_converged (energy (data_storage s m))}\<rparr>)"
proof (induction ms arbitrary: s)
  case Nil
  then show ?case by simp
next
  case (Cons m ms)
  have "converged_methods s \<union> (if window_converged (energy (data_storage s m)) then {m} else {})
          \<union> {m' \<in> set ms. window_converged (energy (data_storage s m'))}
        = converged_methods s \<union> {m' \<in> set (m # ms). window_converged (energy (data_storage s m'))}"
    by auto
  then show ?case
    by (simp add: check_method_cases Cons.IH)
qed

lemma check_convergence_eq:
  "check_convergence s =
     Inr (s\<lparr>converged_methods :=
             converged_methods s \<union> {m. window_converged (energy (data_storage s m))}\<rparr>)"
proof -
  have "set method_keys = UNIV"
    by (simp add: method_keys_def method_UNIV)
  then show ?thesis
    by (simp add: check_convergence_def check_methods_eq)
qed

lemma new_energy_unconverged:
  "m \<notin> converged_methods s \<Longrightarrow> new_energy s m u = Inr (decay_curve m (current_iteration s) u)"
  by (cases m) (simp_all add: decay_curve_def)

lemma new_energy_converged:
  "m \<in> converged_methods s \<Longrightarrow> energy (data_storage s m) \<noteq> [] \<Longrightarrow>
   new_energy s m u = Inr (last (energy (data_storage s m)) + jitter m * (u - 0.5))"
  by (cases m) (simp_all add: py_last_def)

lemma new_energy_empty:
  "m \<in> converged_methods s \<Longrightarrow> energy (data_storage s m) = [] \<Longrightarrow>
   new_energy s m u = Inl IndexError"
  by (cases m) (simp_all add: py_last_def)

lemma new_energy_next_value:
  "last_readable s \<Longrightarrow> new_energy s m (draw_of d m) = Inr (next_value s d m)"
  by (simp add: last_readable_def next_value_def new_energy_unconverged new_energy_converged)

lemma store_energy:
  "energy (data_storage (store i (v normal_vqe) (v vqe_uccsd_hybrid) (v vqe_uccsd_hybrid_zne) s) m)
     = energy (data_storage s m) @ [v m]"
  by (cases m) (simp_all add: store_def)

lemma store_iterations:
  "iterations (data_storage (store i a b c s) m) = iterations (data_storage s m) @ [i]"
  by (simp add: store_def Let_def)

lemma store_other:
  "converged_methods (store i a b c s) = converged_methods s"
  "current_iteration (store i a b c s) = current_iteration s"
  "simulation_stopped (store i a b c s) = simulation_stopped s"
  "timer_pending (store i a b c s) = timer_pending s"
  by (simp_all add: store_def)

lemma generate_eq:
  assumes "last_readable s"
  shows "generate_new_data_point s d =
     Inr (keep_last_50 ((update_stop (after_check s d))
            \<lparr>current_iteration := current_iteration (update_stop (after_check s d)) + 1\<rparr>))"
  by (simp add: generate_new_data_point_def new_energy_next_value [OF assms]
      check_convergence_eq after_check_def store_other
      store_energy [where v = "next_value s d"] appended_def Let_def
      del: new_energy.simps)

lemma after_check_fields:
  "energy (data_storage (after_check s d) m) = appended s d m"
  "iterations (data_storage (after_check s d) m) = iterations (data_storage s m) @ [current_iteration s]"
  "converged_methods (after_check s d) = converged_methods s \<union> {m. window_converged (appended s d m)}"
  "current_iteration (after_check s d) = current_iteration s"
  "simulation_stopped (after_check s d) = simulation_stopped s"
  "timer_pending (after_check s d) = timer_pending s"
  by (simp_all add: after_check_def Let_def store_other store_iterations appended_def
      store_energy [where v = "next_value s d"])

lemma update_stop_fields:
  "data_storage (update_stop s) = data_storage s"
  "converged_methods (update_stop s) = converged_methods s"
  "current_iteration (update_stop s) = current_iteration s"
  "timer_pending (update_stop s) = timer_pending s"
  "simulation_stopped (update_stop s) = (simulation_stopped s \<or> card (converged_methods s) = 3)"
  by (simp_all add: update_stop_def)

lemma keep_last_50_fields:
  "converged_methods (keep_last_50 s) = converged_methods s"
  "current_iteration (keep_last_50 s) = current_iteration s"
  "timer_pending (keep_last_50 s) = timer_pending s"
  "simulation_stopped (keep_last_50 s) = simulation_stopped s"
  "energy (data_storage (keep_last_50 s) m) =
     (if length (iterations (data_storage s normal_vqe)) > 50
      then py_tail 50 (energy (data_storage s m)) else energy (data_storage s m))"
  "iterations (data_storage (keep_last_50 s) m) =
     (if length (iterations (data_storage s normal_vqe)) > 50
      then py_tail 50 (iterations (data_storage s m)) else iterations (data_storage s m))"
  by (simp_all add: keep_last_50_def)

lemma generate_fields:
  assumes "generate_new_data_point s d = Inr s'" and "last_readable s"
  shows "converged_methods s' = converged_methods s \<union> {m. window_converged (appended s d m)}"
    and "current_iteration s' = current_iteration s + 1"
    and "simulation_stopped s' = (simulation_stopped s \<or> card (converged_methods s') = 3)"
    and "timer_pending s' = timer_pending s"
    and "energy (data_storage s' m) =
           (if length (iterations (data_storage s normal_vqe)) \<ge> 50
            then py_tail 50 (appended s d m) else appended s d m)"
    and "iterations (data_storage s' m) =
           (if length (iterations (data_storage s normal_vqe)) \<ge> 50
            then py_tail 50 (iterations (data_storage s m) @ [current_iteration s])
            else iterations (data_storage s m) @ [current_iteration s])"
proof -
  have s': "s' = keep_last_50 ((update_stop (after_check s d))
            \<lparr>current_iteration := current_iteration (update_stop (after_check s d)) + 1\<rparr>)"
    using assms(1) unfolding generate_eq [OF assms(2)] by simp
  have le: "(50 < length (iterations (data_storage s normal_vqe) @ [current_iteration s]))
            = (50 \<le> length (iterations (data_storage s normal_vqe)))"
    by auto
  show "converged_methods s' = converged_methods s \<union> {m. window_converged (appended s d m)}"
    by (simp add: s' keep_last_50_fields update_stop_fields after_check_fields)
  then show "simulation_stopped s' = (simulation_stopped s \<or> card (converged_methods s') = 3)"
    by (simp add: s' keep_last_50_fields update_stop_fields after_check_fields)
  show "current_iteration s' = current_iteration s + 1"
    by (simp add: s' keep_last_50_fields update_stop_fields after_check_fields)
  show "timer_pending s' = timer_pending s"
    by (simp add: s' keep_last_50_fields update_stop_fields after_check_fields)
  show "energy (data_storage s' m) =
           (if length (iterations (data_storage s normal_vqe)) \<ge> 50
            then py_tail 50 (appended s d m) else appended s d m)"
    unfolding s' keep_last_50_fields
    by (simp add: update_stop_fields after_check_fields le del: length_append)
  show "iterations (data_storage s' m) =
           (if length (iterations (data_storage s normal_vqe)) \<ge> 50
            then py_tail 50 (iterations (data_storage s m) @ [current_iteration s])
            else iterations (data_storage s m) @ [current_iteration s])"
    unfolding s' keep_last_50_fields
    by (simp add: update_stop_fields after_check_fields le del: length_append)
qed

lemma length_py_tail: "length (py_tail n xs) = min n (length xs)"
  by (simp add: py_tail_def)

lemma py_tail_short: "length xs \<le> n \<Longrightarrow> py_tail n xs = xs"
  by (simp add: py_tail_def)

lemma last_py_tail: "0 < n \<Longrightarrow> xs \<noteq> [] \<Longrightarrow> last (py_tail n xs) = last xs"
  by (simp add: py_tail_def)

lemma py_tail_py_tail_snoc:
  "py_tail n (py_tail n xs @ [x]) = py_tail n (xs @ [x])"
  by (cases "length xs \<le> n") (simp_all add: py_tail_def Suc_diff_le)

lemma conv_have_window_readable: "conv_have_window s \<Longrightarrow> last_readable s"
  by (auto simp add: conv_have_window_def last_readable_def)

lemma card_methods_le: "card (A :: vqe_method set) \<le> 3"
proof -
  have "card A \<le> card (UNIV :: vqe_method set)"
    using finite_subset [of UNIV "{normal_vqe, vqe_uccsd_hybrid, vqe_uccsd_hybrid_zne}"]
    by (intro card_mono subset_UNIV) (simp add: method_UNIV)
  also have "\<dots> = 3" by (simp add: method_UNIV)
  finally show ?thesis .
qed

lemma generate_total:
  "last_readable s \<Longrightarrow> \<exists>s'. generate_new_data_point s d = Inr s'"
  by (simp add: generate_eq)

lemma generate_readable:
  assumes "generate_new_data_point s d = Inr s'"
  shows "last_readable s"
proof -
  have "energy (data_storage s m) \<noteq> []" if "m \<in> converged_methods s" for m
  proof
    assume "energy (data_storage s m) = []"
    then have e: "new_energy s m (draw_of d m) = Inl IndexError"
      using that by (rule new_energy_empty [rotated])
    have "\<exists>x. generate_new_data_point s d = Inl x"
      using e
      by (cases m; cases "new_energy s normal_vqe (draw_of d normal_vqe)";
          cases "new_energy s vqe_uccsd_hybrid (draw_of d vqe_uccsd_hybrid)")
         (simp_all add: generate_new_data_point_def del: new_energy.simps)
    then show False
      using assms by auto
  qed
  then show ?thesis by (simp add: last_readable_def)
qed

lemma window_converged_length: "window_converged es \<Longrightarrow> 5 \<le> length es"
  by (simp add: window_converged_def)

lemma generate_conv_have_window:
  assumes g: "generate_new_data_point s d = Inr s'" and i: "conv_have_window s"
  shows "conv_have_window s'"
proof -
  note f = generate_fields [OF g conv_have_window_readable [OF i]]
  have "5 \<le> length (energy (data_storage s' m))" if "m \<in> converged_methods s'" for m
  proof -
    have "5 \<le> length (appended s d m)"
      using that i unfolding f(1)
      by (auto simp add: conv_have_window_def appended_def dest: window_converged_length)
    then show ?thesis
      by (simp add: f(5) length_py_tail)
  qed
  then show ?thesis by (simp add: conv_have_window_def)
qed

lemma generate_stop_iff_all:
  assumes g: "generate_new_data_point s d = Inr s'" and i: "\<not> simulation_stopped s"
  shows "stop_iff_all s'"
  using generate_fields(3) [OF g generate_readable [OF g]] i
  by (simp add: stop_iff_all_def)

lemma generate_aligned:
  assumes g: "generate_new_data_point s d = Inr s'" and i: "aligned s"
  shows "aligned s'"
proof -
  note f = generate_fields [OF g generate_readable [OF g]]
  define n where "n = length (iterations (data_storage s normal_vqe))"
  have a: "length (iterations (data_storage s m)) = n"
      "length (energy (data_storage s m)) = n" "n \<le> 50" for m
    using i by (simp_all add: aligned_def n_def)
  have li: "length (iterations (data_storage s' m)) = (if 50 \<le> n then 50 else n + 1)" for m
    by (simp add: f(6) [of m] length_py_tail a n_def [symmetric])
  have le: "length (energy (data_storage s' m)) = (if 50 \<le> n then 50 else n + 1)" for m
    by (simp add: f(5) [of m] length_py_tail appended_def a n_def [symmetric])
  show ?thesis
    using a(3) by (simp add: aligned_def li le)
qed

lemma exp_gap:
  fixes a b :: real
  assumes "a \<le> b" "b \<le> 1"
  shows "(1 - b) * (b - a) \<le> exp (- a) - exp (- b)"
proof -
  have 1: "1 - b \<le> exp (- b)" using exp_ge_add_one_self [of "- b"] by linarith
  have 2: "b - a \<le> exp (b - a) - 1" using exp_ge_add_one_self [of "b - a"] by linarith
  have "(1 - b) * (b - a) \<le> exp (- b) * (exp (b - a) - 1)"
    using 1 2 assms by (intro mult_mono) simp_all
  also have "\<dots> = exp (- a) - exp (- b)"
    by (simp add: algebra_simps exp_add [symmetric])
  finally show ?thesis .
qed

lemma range_ge:
  fixes w :: "real list"
  assumes "x \<in> set w" "y \<in> set w" "t \<le> x - y"
  shows "\<not> Max (set w) - Min (set w) < t"
proof -
  have "x \<le> Max (set w)" using assms(1) by simp
  moreover have "Min (set w) \<le> y" using assms(2) by simp
  ultimately show ?thesis using assms(3) by linarith
qed

lemma py_tail_map_upt:
  "4 \<le> k \<Longrightarrow> py_tail 5 (map f [0..<Suc k]) = map f [k - 4..<Suc k]"
  by (simp add: py_tail_def drop_map del: upt_Suc)

lemma exp_fifth: "4 / 5 < exp (- (1 / 5 :: real))"
proof -
  have "exp (1 / 5 :: real) \<le> 1 + 1 / 5 + (1 / 5)\<^sup>2"
    by (rule exp_bound) simp_all
  then have "exp (1 / 5 :: real) < 5 / 4" by (simp add: power2_eq_square)
  then have "inverse (5 / 4) < inverse (exp (1 / 5 :: real))"
    by (intro less_imp_inverse_less) simp_all
  then show ?thesis by (simp add: exp_minus)
qed

lemma demo_draw_bounds:
  assumes "k \<le> 4"
  shows "0 \<le> 5 * (1 - exp (- real k / 20))" and "5 * (1 - exp (- real k / 20)) < 1"
proof -
  define e where "e = exp (- real k / 20)"
  have "exp (- (1 / 5)) \<le> e" unfolding e_def using assms by simp
  then have lo: "4 / 5 < e" using exp_fifth by linarith
  have hi: "e \<le> 1" unfolding e_def by simp
  show "0 \<le> 5 * (1 - exp (- real k / 20))" and "5 * (1 - exp (- real k / 20)) < 1"
    unfolding e_def [symmetric] using lo hi by simp_all
qed

lemma demo_draws_ok: "draws_ok (demo_draws k)"
  using demo_draw_bounds [of k] by (simp add: demo_draws_def draw_ok_def)

lemma demo_readable: "last_readable (demo_state k p)"
  by (simp add: last_readable_def demo_state_def)

lemma demo_next_value: "next_value (demo_state k p) (demo_draws k) m = demo_energy m k"
proof (cases m)
  case normal_vqe
  show ?thesis
  proof (cases "k \<le> 4")
    case True
    then show ?thesis
      by (simp add: normal_vqe next_value_def demo_state_def demo_draws_def decay_curve_def)
  next
    case False
    show ?thesis
    proof (cases "k = 5")
      case True
      then show ?thesis
        by (simp add: normal_vqe next_value_def demo_state_def demo_draws_def last_map)
    next
      case six: False
      with False have "\<not> k - Suc 0 \<le> 4" and "4 \<le> k" and "5 \<le> k" by simp_all
      then show ?thesis using False
        by (simp add: normal_vqe next_value_def demo_state_def demo_draws_def last_map
            of_nat_diff) (simp add: field_simps)
    qed
  qed
next
  case vqe_uccsd_hybrid
  then show ?thesis
    by (simp add: next_value_def demo_state_def demo_draws_def decay_curve_def)
next
  case vqe_uccsd_hybrid_zne
  then show ?thesis
    by (simp add: next_value_def demo_state_def demo_draws_def decay_curve_def)
qed

lemma demo_appended:
  "appended (demo_state k p) (demo_draws k) m = map (demo_energy m) [0..<Suc k]"
  by (simp add: appended_def demo_next_value) (simp add: demo_state_def)

lemma decay_gap:
  fixes D :: real
  assumes "0 < D" "real (j + 4) \<le> D"
  shows "(1 - real (j + 4) / D) * (4 / D) \<le> exp (- (real j / D)) - exp (- (real (j + 4) / D))"
proof -
  have "(1 - real (j + 4) / D) * (real (j + 4) / D - real j / D)
          \<le> exp (- (real j / D)) - exp (- (real (j + 4) / D))"
    using assms by (intro exp_gap) (simp_all add: divide_le_cancel)
  moreover have "real (j + 4) / D - real j / D = 4 / D"
    using assms by (simp add: field_simps)
  ultimately show ?thesis by simp
qed

lemma demo_hybrid_open:
  assumes "k \<le> 7"
  shows "\<not> window_converged (map (demo_energy vqe_uccsd_hybrid) [0..<Suc k])"
proof (cases "4 \<le> k")
  case True
  let ?f = "demo_energy vqe_uccsd_hybrid"
  define j where "j = k - 4"
  have k: "k = j + 4" using True by (simp add: j_def)
  have j: "j \<le> 3" using assms by (simp add: j_def)
  define a where "a = exp (- (real j / 10))"
  define b where "b = exp (- (real (j + 4) / 10))"
  have g: "(1 - real (j + 4) / 10) * (4 / 10) \<le> a - b"
    unfolding a_def b_def using j by (intro decay_gap) simp_all
  have "3 / 10 \<le> 1 - real (j + 4) / 10" using j by simp
  then have "3 / 10 * (4 / 10) \<le> (1 - real (j + 4) / 10) * (4 / 10)"
    by (rule mult_right_mono) simp
  with g have "3 / 10 * (4 / 10) \<le> a - b" by linarith
  then have "1 / 1000 \<le> (2 / 5) * (a - b)" by simp
  moreover have fd: "?f j - ?f (j + 4) = (2 / 5) * (a - b)"
    unfolding a_def b_def by (simp add: algebra_simps)
  ultimately have "1 / 1000 \<le> ?f j - ?f (j + 4)" by (simp only: fd)
  moreover have "?f j \<in> set (map ?f [j..<Suc (j + 4)])" "?f (j + 4) \<in> set (map ?f [j..<Suc (j + 4)])"
    by (auto simp del: demo_energy.simps)
  ultimately have "\<not> Max (set (map ?f [j..<Suc (j + 4)])) - Min (set (map ?f [j..<Suc (j + 4)])) < 1 / 1000"
    by (intro range_ge)
  moreover have "py_tail 5 (map ?f [0..<Suc k]) = map ?f [j..<Suc (j + 4)]"
    using py_tail_map_upt [OF True, of ?f] by (simp add: k del: upt_Suc)
  ultimately show ?thesis
    by (simp add: window_converged_def del: upt_Suc)
next
  case False
  then show ?thesis by (simp add: window_converged_def)
qed

lemma demo_zne_open:
  assumes "k \<le> 7"
  shows "\<not> window_converged (map (demo_energy vqe_uccsd_hybrid_zne) [0..<Suc k])"
proof (cases "4 \<le> k")
  case True
  let ?f = "demo_energy vqe_uccsd_hybrid_zne"
  define j where "j = k - 4"
  have k: "k = j + 4" using True by (simp add: j_def)
  have j: "j \<le> 3" using assms by (simp add: j_def)
  define a where "a = exp (- (real j / 8))"
  define b where "b = exp (- (real (j + 4) / 8))"
  have g: "(1 - real (j + 4) / 8) * (4 / 8) \<le> a - b"
    unfolding a_def b_def using j by (intro decay_gap) simp_all
  have "1 / 8 \<le> 1 - real (j + 4) / 8" using j by simp
  then have "1 / 8 * (4 / 8) \<le> (1 - real (j + 4) / 8) * (4 / 8)"
    by (rule mult_right_mono) simp
  with g have "1 / 8 * (4 / 8) \<le> a - b" by linarith
  then have "1 / 1000 \<le> (1 / 2) * (a - b)" by simp
  moreover have fd: "?f j - ?f (j + 4) = (1 / 2) * (a - b)"
    unfolding a_def b_def by (simp add: algebra_simps)
  ultimately have "1 / 1000 \<le> ?f j - ?f (j + 4)" by (simp only: fd)
  moreover have "?f j \<in> set (map ?f [j..<Suc (j + 4)])" "?f (j + 4) \<in> set (map ?f [j..<Suc (j + 4)])"
    by (auto simp del: demo_energy.simps)
  ultimately have "\<not> Max (set (map ?f [j..<Suc (j + 4)])) - Min (set (map ?f [j..<Suc (j + 4)])) < 1 / 1000"
    by (intro range_ge)
  moreover have "py_tail 5 (map ?f [0..<Suc k]) = map ?f [j..<Suc (j + 4)]"
    using py_tail_map_upt [OF True, of ?f] by (simp add: k del: upt_Suc)
  ultimately show ?thesis
    by (simp add: window_converged_def del: upt_Suc)
next
  case False
  then show ?thesis by (simp add: window_converged_def)
qed

lemma demo_normal_window:
  assumes "k \<le> 4"
  shows "window_converged (map (demo_energy normal_vqe) [0..<Suc k]) \<longleftrightarrow> k = 4"
proof (cases "k = 4")
  case True
  have "set (map (demo_energy normal_vqe) [0..<Suc 4]) = {- 0.8}"
    by (simp add: image_constant_conv del: upt_Suc)
  then show ?thesis
    by (simp add: True window_converged_def py_tail_def del: upt_Suc)
next
  case False
  then show ?thesis using assms by (simp add: window_converged_def)
qed

lemma demo_window_set:
  assumes "k \<le> 7"
  shows "converged_methods (demo_state k p)
           \<union> {m. window_converged (appended (demo_state k p) (demo_draws k) m)}
         = (if 5 \<le> Suc k then {normal_vqe} else {})"
proof -
  have "(m \<in> converged_methods (demo_state k p)
           \<union> {m. window_converged (appended (demo_state k p) (demo_draws k) m)})
        = (m \<in> (if 5 \<le> Suc k then {normal_vqe} else {}))" for m
  proof (cases m)
    case normal_vqe
    show ?thesis
    proof (cases "k \<le> 4")
      case True
      then show ?thesis
        using demo_normal_window [OF True]
        by (simp add: normal_vqe demo_appended del: upt_Suc) (simp add: demo_state_def)
    next
      case False
      then show ?thesis by (simp add: normal_vqe demo_state_def)
    qed
  next
    case vqe_uccsd_hybrid
    then show ?thesis
      using demo_hybrid_open [OF assms]
      by (simp add: demo_appended del: upt_Suc) (simp add: demo_state_def)
  next
    case vqe_uccsd_hybrid_zne
    then show ?thesis
      using demo_zne_open [OF assms]
      by (simp add: demo_appended del: upt_Suc) (simp add: demo_state_def)
  qed
  then show ?thesis by blast
qed

lemma demo_tick:
  assumes "k \<le> 7"
  shows "generate_new_data_point (demo_state k p) (demo_draws k) = Inr (demo_state (Suc k) p)"
proof -
  obtain s' where g: "generate_new_data_point (demo_state k p) (demo_draws k) = Inr s'"
    using generate_total [OF demo_readable] by blast
  note f = generate_fields [OF g demo_readable]
  have n: "length (iterations (data_storage (demo_state k p) normal_vqe)) = k"
    by (simp add: demo_state_def)
  have c: "converged_methods s' = (if 5 \<le> Suc k then {normal_vqe} else {})"
    unfolding f(1) by (rule demo_window_set [OF assms])
  have "card (converged_methods s') \<noteq> 3" by (simp add: c)
  then have st: "simulation_stopped s' = False"
    by (simp add: f(3)) (simp add: demo_state_def)
  have e: "energy (data_storage s' m) = map (demo_energy m) [0..<Suc k]" for m
    using assms by (simp add: f(5) n demo_appended del: upt_Suc)
  have i: "iterations (data_storage s' m) = [0..<Suc k]" for m
    using assms by (simp add: f(6) n) (simp add: demo_state_def)
  have "data_storage s' = data_storage (demo_state (Suc k) p)"
  proof
    fix m
    show "data_storage s' m = data_storage (demo_state (Suc k) p) m"
      by (rule series.equality) (simp_all add: e i demo_state_def del: upt_Suc)
  qed
  moreover have "current_iteration s' = Suc k" by (simp add: f(2) demo_state_def)
  moreover have "timer_pending s' = p" by (simp add: f(4) demo_state_def)
  ultimately have "s' = demo_state (Suc k) p"
    using c st by (intro dashboard.equality) (simp_all add: demo_state_def)
  then show ?thesis using g by simp
qed

lemma demo_init: "demo_state 0 False = init_fields"
  by (simp add: demo_state_def init_fields_def)

lemma start_halted:
  assumes "simulation_stopped s \<or> 3 \<le> card (converged_methods s)"
  shows "start_data_generation s d =
           Inr (if 3 \<le> card (converged_methods s) then s\<lparr>simulation_stopped := True\<rparr> else s)"
  using assms by (simp add: start_data_generation_def)

lemma start_running:
  assumes "\<not> simulation_stopped s" "card (converged_methods s) < 3"
    and g: "generate_new_data_point s d = Inr s1"
  shows "start_data_generation s d =
           Inr (if simulation_stopped s1 then s1 else s1\<lparr>timer_pending := True\<rparr>)"
  using assms by (simp add: start_data_generation_def)

lemma start_total:
  assumes "last_readable s"
  shows "\<exists>s'. start_data_generation s d = Inr s'"
proof (cases "simulation_stopped s \<or> 3 \<le> card (converged_methods s)")
  case True
  then show ?thesis by (simp add: start_halted)
next
  case False
  obtain s1 where "generate_new_data_point s d = Inr s1"
    using generate_total [OF assms] by blast
  with False show ?thesis by (simp add: start_running)
qed

lemma inv_pending [simp]:
  "conv_have_window (s\<lparr>timer_pending := p\<rparr>) = conv_have_window s"
  "stop_iff_all (s\<lparr>timer_pending := p\<rparr>) = stop_iff_all s"
  "aligned (s\<lparr>timer_pending := p\<rparr>) = aligned s"
  "stop_unschedules (s\<lparr>timer_pending := p\<rparr>) = (simulation_stopped s \<longrightarrow> \<not> p)"
  by (simp_all add: conv_have_window_def stop_iff_all_def aligned_def stop_unschedules_def)

lemma inv_stopped [simp]:
  "conv_have_window (s\<lparr>simulation_stopped := b\<rparr>) = conv_have_window s"
  "aligned (s\<lparr>simulation_stopped := b\<rparr>) = aligned s"
  "stop_iff_all (s\<lparr>simulation_stopped := b\<rparr>) = (b \<longleftrightarrow> card (converged_methods s) = 3)"
  "stop_unschedules (s\<lparr>simulation_stopped := b\<rparr>) = (b \<longrightarrow> \<not> timer_pending s)"
  by (simp_all add: conv_have_window_def stop_iff_all_def aligned_def stop_unschedules_def)

lemma core_inv_pending:
  "core_inv s \<Longrightarrow> core_inv (s\<lparr>timer_pending := False\<rparr>)"
  by (simp add: core_inv_def)

lemma start_inv:
  assumes i: "core_inv s" and p: "\<not> timer_pending s" and st: "start_data_generation s d = Inr s'"
  shows "core_inv s'"
proof (cases "simulation_stopped s \<or> 3 \<le> card (converged_methods s)")
  case True
  have le: "card (converged_methods s) \<le> 3" by (rule card_methods_le)
  show ?thesis
  proof (cases "3 \<le> card (converged_methods s)")
    case three: True
    then have "s' = s\<lparr>simulation_stopped := True\<rparr>"
      using st unfolding start_halted [OF True] by simp
    then show ?thesis using i p le three by (simp add: core_inv_def)
  next
    case False
    then have "s' = s" using st unfolding start_halted [OF True] by simp
    then show ?thesis using i by simp
  qed
next
  case False
  then have ns: "\<not> simulation_stopped s" and c: "card (converged_methods s) < 3" by simp_all
  have r: "last_readable s" using i by (simp add: core_inv_def conv_have_window_readable)
  obtain s1 where g: "generate_new_data_point s d = Inr s1"
    using generate_total [OF r] by blast
  have s': "s' = (if simulation_stopped s1 then s1 else s1\<lparr>timer_pending := True\<rparr>)"
    using st unfolding start_running [OF ns c g] by simp
  have 1: "conv_have_window s1"
    using i by (intro generate_conv_have_window [OF g]) (simp add: core_inv_def)
  have 2: "stop_iff_all s1" using g ns by (rule generate_stop_iff_all)
  have 3: "aligned s1"
    using i by (intro generate_aligned [OF g]) (simp add: core_inv_def)
  have 4: "\<not> timer_pending s1" using generate_fields(4) [OF g r] p by simp
  show ?thesis
  proof (cases "simulation_stopped s1")
    case True
    then show ?thesis using 1 2 3 4 by (simp add: s' core_inv_def stop_unschedules_def)
  next
    case False
    then show ?thesis using 1 2 3 by (simp add: s' core_inv_def)
  qed
qed

lemma reset_inv: "core_inv (button_click ''Run Simulation'' s)"
proof -
  let ?s = "button_click ''Run Simulation'' s"
  have "conv_have_window ?s" by (simp add: conv_have_window_def button_click_def)
  moreover have "stop_iff_all ?s" by (simp add: stop_iff_all_def button_click_def)
  moreover have "aligned ?s" by (simp add: aligned_def button_click_def)
  moreover have "stop_unschedules ?s" by (simp add: stop_unschedules_def button_click_def)
  ultimately show ?thesis by (simp add: core_inv_def)
qed

lemma button_click_inv: "core_inv s \<Longrightarrow> core_inv (button_click t s)"
proof (cases "t = ''Run Simulation''")
  case True
  then show ?thesis by (simp add: reset_inv)
next
  case False
  assume "core_inv s"
  then show ?thesis using False by (simp add: button_click_def)
qed

lemma step_total:
  assumes "core_inv s"
  shows "\<exists>s'. step e s = Inr s'"
proof (cases e)
  case (Timer d)
  have "last_readable (s\<lparr>timer_pending := False\<rparr>)"
    using core_inv_pending [OF assms] by (simp add: core_inv_def conv_have_window_readable)
  then show ?thesis using start_total by (simp add: Timer)
next
  case (Click t)
  then show ?thesis by simp
qed

lemma step_inv:
  assumes i: "core_inv s" and st: "step e s = Inr s'"
  shows "core_inv s'"
proof (cases e)
  case (Timer d)
  show ?thesis
  proof (cases "timer_pending s")
    case True
    have 1: "start_data_generation (s\<lparr>timer_pending := False\<rparr>) d = Inr s'"
      using st True unfolding Timer by simp
    have 2: "\<not> timer_pending (s\<lparr>timer_pending := False\<rparr>)" by simp
    show ?thesis
      by (rule start_inv [OF core_inv_pending [OF i] 2 1])
  next
    case False
    have "s' = s" using st False unfolding Timer by simp
    then show ?thesis using i by simp
  qed
next
  case (Click t)
  have "s' = button_click t s" using st unfolding Click by simp
  then show ?thesis using button_click_inv [OF i] by simp
qed

lemma exec_inv_total:
  "core_inv s \<Longrightarrow> \<exists>s'. exec es s = Inr s' \<and> core_inv s'"
proof (induction es arbitrary: s)
  case Nil
  then show ?case by simp
next
  case (Cons e es)
  obtain s1 where s1: "step e s = Inr s1" using step_total [OF Cons.prems] by blast
  then have "core_inv s1" using Cons.prems step_inv by blast
  then show ?case using Cons.IH s1 by simp
qed

lemma init_inv: "core_inv init_fields"
proof -
  have "conv_have_window init_fields" by (simp add: conv_have_window_def init_fields_def)
  moreover have "stop_iff_all init_fields" by (simp add: stop_iff_all_def init_fields_def)
  moreover have "aligned init_fields" by (simp add: aligned_def init_fields_def)
  moreover have "stop_unschedules init_fields" by (simp add: stop_unschedules_def init_fields_def)
  ultimately show ?thesis by (simp add: core_inv_def)
qed

lemma session_inv_total: "\<exists>s. session d0 es = Inr s \<and> core_inv s"
proof -
  have "last_readable init_fields" by (simp add: last_readable_def init_fields_def)
  then obtain s0 where s0: "start_data_generation init_fields d0 = Inr s0"
    using start_total by blast
  have "core_inv s0"
    by (rule start_inv [OF init_inv _ s0]) (simp add: init_fields_def)
  then show ?thesis
    using exec_inv_total [of s0 es] by (simp add: session_def s0)
qed

lemma demo_card: "card (converged_methods (demo_state k p)) < 3"
  by (simp add: demo_state_def)

lemma demo_start:
  assumes "k \<le> 7"
  shows "start_data_generation (demo_state k False) (demo_draws k) = Inr (demo_state (Suc k) True)"
proof -
  have "start_data_generation (demo_state k False) (demo_draws k) =
          Inr (if simulation_stopped (demo_state (Suc k) False) then demo_state (Suc k) False
               else (demo_state (Suc k) False)\<lparr>timer_pending := True\<rparr>)"
    by (rule start_running [OF _ demo_card demo_tick [OF assms]]) (simp add: demo_state_def)
  then show ?thesis by (simp add: demo_state_def)
qed

lemma demo_step:
  assumes "k \<le> 7"
  shows "step (Timer (demo_draws k)) (demo_state k True) = Inr (demo_state (Suc k) True)"
proof -
  have "(demo_state k True)\<lparr>timer_pending := False\<rparr> = demo_state k False"
    by (simp add: demo_state_def)
  moreover have "timer_pending (demo_state k True)" by (simp add: demo_state_def)
  ultimately show ?thesis using demo_start [OF assms] by simp
qed

lemma demo_exec:
  "a \<le> b \<Longrightarrow> b \<le> 8 \<Longrightarrow> exec (demo_events a b) (demo_state a True) = Inr (demo_state b True)"
proof (induction "b - a" arbitrary: a)
  case 0
  then show ?case by (simp add: demo_events_def)
next
  case (Suc n)
  then have lt: "a < b" and a7: "a \<le> 7" by simp_all
  have ev: "demo_events a b = Timer (demo_draws a) # demo_events (Suc a) b"
    using lt by (simp add: demo_events_def upt_conv_Cons)
  have "exec (demo_events (Suc a) b) (demo_state (Suc a) True) = Inr (demo_state b True)"
    using Suc by (intro Suc.hyps(1)) simp_all
  then show ?case by (simp add: ev demo_step [OF a7] del: step.simps)
qed

lemma demo_session:
  assumes "1 \<le> n" "n \<le> 8"
  shows "session (demo_draws 0) (demo_events 1 n) = Inr (demo_state n True)"
proof -
  have "start_data_generation init_fields (demo_draws 0) = Inr (demo_state 1 True)"
    using demo_start [of 0] by (simp add: demo_init)
  then show ?thesis using demo_exec [of 1 n] assms by (simp add: session_def)
qed

lemma new_energy_value:
  assumes "generate_new_data_point s d = Inr s'" and "new_energy s m (draw_of d m) = Inr v"
  shows "v = next_value s d m"
  using new_energy_next_value [OF generate_readable [OF assms(1)], of m d] assms(2) by simp

lemma last_kept:
  assumes "generate_new_data_point s d = Inr s'"
  shows "last (energy (data_storage s' m)) = next_value s d m"
proof -
  have "energy (data_storage s' m) =
          (if length (iterations (data_storage s normal_vqe)) \<ge> 50
           then py_tail 50 (appended s d m) else appended s d m)"
    by (rule generate_fields(5) [OF assms generate_readable [OF assms]])
  moreover have "appended s d m \<noteq> []" by (simp add: appended_def)
  moreover have "last (appended s d m) = next_value s d m" by (simp add: appended_def)
  ultimately show ?thesis by (simp add: last_py_tail)
qed

lemma appended_pending [simp]:
  "appended (s\<lparr>timer_pending := p\<rparr>) d m = appended s d m"
  by (simp add: appended_def next_value_def)

lemma pending_fires:
  assumes "core_inv s" "timer_pending s"
  shows "\<not> simulation_stopped s" and "card (converged_methods s) < 3"
proof -
  show ns: "\<not> simulation_stopped s"
    using assms by (auto simp add: core_inv_def stop_unschedules_def)
  have "card (converged_methods s) \<noteq> 3"
    using assms(1) ns by (simp add: core_inv_def stop_iff_all_def)
  then show "card (converged_methods s) < 3"
    using card_methods_le [of "converged_methods s"] by linarith
qed

lemma inv_readable: "core_inv s \<Longrightarrow> last_readable s"
  by (simp add: core_inv_def conv_have_window_readable)

lemma timer_idle: "\<not> timer_pending s \<Longrightarrow> step (Timer d) s = Inr s"
  by simp

lemma timer_fires:
  assumes i: "core_inv s" and p: "timer_pending s"
  shows "\<exists>s1. generate_new_data_point (s\<lparr>timer_pending := False\<rparr>) d = Inr s1
           \<and> step (Timer d) s =
               Inr (if simulation_stopped s1 then s1 else s1\<lparr>timer_pending := True\<rparr>)"
proof -
  let ?s = "s\<lparr>timer_pending := False\<rparr>"
  have r: "last_readable ?s" using inv_readable [OF core_inv_pending [OF i]] .
  obtain s1 where g: "generate_new_data_point ?s d = Inr s1"
    using generate_total [OF r] by blast
  have ns: "\<not> simulation_stopped ?s" using pending_fires(1) [OF i p] by simp
  have c: "card (converged_methods ?s) < 3" using pending_fires(2) [OF i p] by simp
  have "start_data_generation ?s d =
          Inr (if simulation_stopped s1 then s1 else s1\<lparr>timer_pending := True\<rparr>)"
    by (rule start_running [OF ns c g])
  then show ?thesis using g p by simp
qed

lemma timer_cases:
  assumes i: "core_inv s" and st: "step (Timer d) s = Inr s'"
  obtains (idle) "\<not> timer_pending s" "s' = s"
  | (fire) s1 where "timer_pending s"
      "generate_new_data_point (s\<lparr>timer_pending := False\<rparr>) d = Inr s1"
      "\<not> timer_pending s1"
      "s' = (if simulation_stopped s1 then s1 else s1\<lparr>timer_pending := True\<rparr>)"
proof (cases "timer_pending s")
  case False
  then have "s' = s" using st by simp
  then show ?thesis using False idle by blast
next
  case True
  obtain s1 where g: "generate_new_data_point (s\<lparr>timer_pending := False\<rparr>) d = Inr s1"
    and s': "s' = (if simulation_stopped s1 then s1 else s1\<lparr>timer_pending := True\<rparr>)"
    using timer_fires [OF i True, of d] st by auto
  have "\<not> timer_pending s1"
    using generate_fields(4) [OF g generate_readable [OF g]] by simp
  then show ?thesis using True g s' fire by blast
qed

lemma timer_fields:
  assumes i: "core_inv s" and st: "step (Timer d) s = Inr s'"
  shows "converged_methods s' =
           (if timer_pending s
            then converged_methods s \<union> {m. window_converged (appended s d m)}
            else converged_methods s)"
    and "current_iteration s' = current_iteration s + (if timer_pending s then 1 else 0)"
    and "simulation_stopped s' = (card (converged_methods s') = 3)"
    and "timer_pending s' = (timer_pending s \<and> \<not> simulation_stopped s')"
    and "energy (data_storage s' m) =
           (if timer_pending s
            then (if length (iterations (data_storage s normal_vqe)) \<ge> 50
                  then py_tail 50 (appended s d m) else appended s d m)
            else energy (data_storage s m))"
    and "iterations (data_storage s' m) =
           (if timer_pending s
            then (if length (iterations (data_storage s normal_vqe)) \<ge> 50
                  then py_tail 50 (iterations (data_storage s m) @ [current_iteration s])
                  else iterations (data_storage s m) @ [current_iteration s])
            else iterations (data_storage s m))"
proof -
  have i': "core_inv s'" using step_inv [OF i st] .
  show "simulation_stopped s' = (card (converged_methods s') = 3)"
    using i' by (simp add: core_inv_def stop_iff_all_def)
  from i st show "converged_methods s' =
           (if timer_pending s
            then converged_methods s \<union> {m. window_converged (appended s d m)}
            else converged_methods s)"
  proof (cases rule: timer_cases)
    case idle
    then show ?thesis by simp
  next
    case (fire s1)
    have "converged_methods s' = converged_methods s1" by (simp add: fire(4))
    then show ?thesis
      using generate_fields(1) [OF fire(2) generate_readable [OF fire(2)]] fire(1) by simp
  qed
  from i st show "current_iteration s' = current_iteration s + (if timer_pending s then 1 else 0)"
  proof (cases rule: timer_cases)
    case idle
    then show ?thesis by simp
  next
    case (fire s1)
    have "current_iteration s' = current_iteration s1" by (simp add: fire(4))
    then show ?thesis
      using generate_fields(2) [OF fire(2) generate_readable [OF fire(2)]] fire(1) by simp
  qed
  from i st show "timer_pending s' = (timer_pending s \<and> \<not> simulation_stopped s')"
  proof (cases rule: timer_cases)
    case idle
    then show ?thesis by simp
  next
    case (fire s1)
    then show ?thesis by simp
  qed
  from i st show "energy (data_storage s' m) =
           (if timer_pending s
            then (if length (iterations (data_storage s normal_vqe)) \<ge> 50
                  then py_tail 50 (appended s d m) else appended s d m)
            else energy (data_storage s m))"
  proof (cases rule: timer_cases)
    case idle
    then show ?thesis by simp
  next
    case (fire s1)
    have "data_storage s' = data_storage s1" by (simp add: fire(4))
    then show ?thesis
      using generate_fields(5) [OF fire(2) generate_readable [OF fire(2)], of m] fire(1) by simp
  qed
  from i st show "iterations (data_storage s' m) =
           (if timer_pending s
            then (if length (iterations (data_storage s normal_vqe)) \<ge> 50
                  then py_tail 50 (iterations (data_storage s m) @ [current_iteration s])
                  else iterations (data_storage s m) @ [current_iteration s])
            else iterations (data_storage s m))"
  proof (cases rule: timer_cases)
    case idle
    then show ?thesis by simp
  next
    case (fire s1)
    have "data_storage s' = data_storage s1" by (simp add: fire(4))
    then show ?thesis
      using generate_fields(6) [OF fire(2) generate_readable [OF fire(2)], of m] fire(1) by simp
  qed
qed

lemma py_tail_py_tail:
  assumes "n \<le> k"
  shows "py_tail n (py_tail k xs) = py_tail n xs"
proof -
  have "length xs - (length xs - k + n) + (length xs - k) = length xs - n"
    using assms by arith
  then show ?thesis by (simp add: py_tail_def)
qed

lemma py_tail_snoc: "py_tail (Suc n) (xs @ [x]) = py_tail n xs @ [x]"
  by (simp add: py_tail_def Suc_diff_le)

lemma py_tail_map_range:
  "py_tail n (map f [a..<b]) = map f [max a (b - n)..<b]"
proof (cases "a \<le> b")
  case True
  then have "a + (b - a - n) = max a (b - n)" by (simp add: max_def) arith
  then have "drop (b - a - n) [a..<b] = [max a (b - n)..<b]" by simp
  then show ?thesis by (simp add: py_tail_def drop_map del: drop_upt)
next
  case False
  then show ?thesis by (simp add: py_tail_def)
qed

lemma range_le:
  fixes w :: "real list"
  assumes "w \<noteq> []" and "\<And>x. x \<in> set w \<Longrightarrow> L \<le> x \<and> x \<le> U"
  shows "Max (set w) - Min (set w) \<le> U - L"
proof -
  have "Max (set w) \<in> set w" "Min (set w) \<in> set w"
    using assms(1) by (simp_all add: Max_in Min_in)
  then have "Max (set w) \<le> U" "L \<le> Min (set w)" using assms(2) by blast+
  then show ?thesis by linarith
qed

lemma exp_minus_nine: "exp (- 9 :: real) \<le> 1 / 512"
proof -
  have "(2 :: real) \<le> exp 1" using exp_ge_add_one_self [of 1] by simp
  then have "(2 :: real) ^ 9 \<le> exp 1 ^ 9" by (intro power_mono) simp_all
  also have "exp (1 :: real) ^ 9 = exp 9"
    using exp_of_nat_mult [of 9 "1 :: real"] by simp
  finally have "(512 :: real) \<le> exp 9" by simp
  then have "inverse (exp (9 :: real)) \<le> inverse 512"
    by (intro le_imp_inverse_le) simp_all
  then show ?thesis by (simp add: exp_minus)
qed

lemma exp_small:
  fixes c :: real
  assumes "0 < c" "c \<le> 20" "180 \<le> j"
  shows "exp (- real j / c) \<le> 1 / 512"
proof -
  have "9 * c \<le> real j" using assms by simp
  then have "- real j / c \<le> - 9" using assms(1) by (simp add: field_simps)
  then have "exp (- real j / c) \<le> exp (- 9)" by (simp only: exp_le_cancel_iff)
  then show ?thesis using exp_minus_nine by linarith
qed

lemma flat_arith:
  fixes a b amp base :: real
  assumes "0 < a" "a \<le> b" "b \<le> 1 / 512" "0 < amp" "amp \<le> 1 / 2"
  shows "base - amp * (1 - b) - 1 / 1024 \<le> base - amp * (1 - a)
         \<and> base - amp * (1 - a) \<le> base - amp * (1 - b)"
proof -
  have 1: "0 < amp * a" using assms by simp
  have 2: "amp * a \<le> amp * b" using assms by simp
  have "amp * b \<le> (1 / 2) * (1 / 512)"
    using assms by (intro mult_mono) simp_all
  then have 3: "amp * b \<le> 1 / 1024" by simp
  show ?thesis using 1 2 3 by (simp add: algebra_simps)
qed

lemma curve_flat:
  assumes "180 \<le> i"
  shows "decay_curve m 180 0 - 1 / 1024 \<le> decay_curve m i 0
         \<and> decay_curve m i 0 \<le> decay_curve m 180 0"
proof -
  have mono: "exp (- real i / c) \<le> exp (- real (180 :: nat) / c)" if "0 < c" for c :: real
    using assms that by (simp add: field_simps)
  have small: "exp (- real (180 :: nat) / c) \<le> 1 / 512" if "0 < c" "c \<le> 20" for c :: real
    using that by (intro exp_small) simp_all
  have pos: "0 < exp (- real i / c)" for c :: real by (rule exp_gt_zero)
  show ?thesis
  proof (cases m)
    case normal_vqe
    have c: "decay_curve normal_vqe j 0 = - 0.8 - 0.4 * (1 - exp (- real j / 20))" for j
      by (simp add: decay_curve_def)
    show ?thesis unfolding normal_vqe c
      by (rule flat_arith [OF pos mono small]) simp_all
  next
    case vqe_uccsd_hybrid
    have c: "decay_curve vqe_uccsd_hybrid j 0 = - 1.0 - 0.4 * (1 - exp (- real j / 10))" for j
      by (simp add: decay_curve_def)
    show ?thesis unfolding vqe_uccsd_hybrid c
      by (rule flat_arith [OF pos mono small]) simp_all
  next
    case vqe_uccsd_hybrid_zne
    have c: "decay_curve vqe_uccsd_hybrid_zne j 0 = - 1.1 - 0.5 * (1 - exp (- real j / 8))" for j
      by (simp add: decay_curve_def)
    show ?thesis unfolding vqe_uccsd_hybrid_zne c
      by (rule flat_arith [OF pos mono small]) simp_all
  qed
qed

lemma on_curve_pending [simp]: "on_curve (s\<lparr>timer_pending := p\<rparr>) = on_curve s"
  by (simp add: on_curve_def)

lemma quiet_appended:
  assumes "m \<notin> converged_methods s"
  shows "appended s quiet_draws m =
           energy (data_storage s m) @ [decay_curve m (current_iteration s) 0]"
  using assms by (cases m) (simp_all add: appended_def next_value_def quiet_draws_def)

lemma quiet_tail:
  assumes c: "on_curve s" and m: "m \<notin> converged_methods s" and n: "n \<le> 4"
  shows "py_tail (Suc n) (appended s quiet_draws m) =
           map (\<lambda>i. decay_curve m i 0) [current_iteration s - n..<Suc (current_iteration s)]"
proof -
  define k where "k = current_iteration s"
  define f where "f = (\<lambda>i. decay_curve m i 0)"
  have 4: "py_tail 4 (energy (data_storage s m)) = map f [k - 4..<k]"
    using c m by (simp add: on_curve_def k_def f_def)
  have "py_tail n (energy (data_storage s m)) = py_tail n (py_tail 4 (energy (data_storage s m)))"
    using n by (simp add: py_tail_py_tail)
  also have "\<dots> = map f [max (k - 4) (k - n)..<k]"
    unfolding 4 by (rule py_tail_map_range)
  also have "max (k - 4) (k - n) = k - n" using n by (simp add: max_def)
  finally have t: "py_tail n (energy (data_storage s m)) = map f [k - n..<k]" .
  have "py_tail (Suc n) (appended s quiet_draws m) =
          py_tail n (energy (data_storage s m)) @ [f k]"
    unfolding quiet_appended [OF m] by (simp add: py_tail_snoc k_def f_def)
  also have "\<dots> = map f [k - n..<Suc k]" by (simp add: t)
  finally show ?thesis by (simp only: k_def f_def)
qed

lemma quiet_tick:
  assumes g: "generate_new_data_point s quiet_draws = Inr s'" and c: "on_curve s"
  shows "on_curve s'"
proof -
  note f = generate_fields [OF g generate_readable [OF g]]
  have "py_tail 4 (energy (data_storage s' m)) =
          map (\<lambda>i. decay_curve m i 0) [current_iteration s' - 4..<current_iteration s']"
    if "m \<notin> converged_methods s'" for m
  proof -
    have m: "m \<notin> converged_methods s" using that f(1) by simp
    have "py_tail 4 (energy (data_storage s' m)) = py_tail 4 (appended s quiet_draws m)"
      by (simp add: f(5) py_tail_py_tail)
    also have "\<dots> = py_tail (Suc 3) (appended s quiet_draws m)"
      by (simp add: eval_nat_numeral)
    also have "\<dots> = map (\<lambda>i. decay_curve m i 0)
                       [current_iteration s - 3..<Suc (current_iteration s)]"
      by (rule quiet_tail [OF c m]) simp
    finally show ?thesis by (simp add: f(2))
  qed
  then show ?thesis by (simp add: on_curve_def)
qed

lemma quiet_window:
  assumes c: "on_curve s" and m: "m \<notin> converged_methods s" and k: "184 \<le> current_iteration s"
  shows "window_converged (appended s quiet_draws m)"
proof -
  define w where "w = py_tail 5 (appended s quiet_draws m)"
  have w: "w = map (\<lambda>i. decay_curve m i 0)
                 [current_iteration s - 4..<Suc (current_iteration s)]"
    unfolding w_def using quiet_tail [OF c m, of 4] by (simp add: eval_nat_numeral)
  have "length w = 5" using k by (simp add: w)
  then have len: "5 \<le> length (appended s quiet_draws m)"
    by (simp add: w_def length_py_tail)
  have ne: "w \<noteq> []" using \<open>length w = 5\<close> by auto
  have b: "decay_curve m 180 0 - 1 / 1024 \<le> x \<and> x \<le> decay_curve m 180 0"
    if "x \<in> set w" for x
  proof -
    have "x \<in> (\<lambda>i. decay_curve m i 0) ` {current_iteration s - 4..<Suc (current_iteration s)}"
      using that unfolding w by (simp only: set_map set_upt)
    then obtain i where "x = decay_curve m i 0" and "current_iteration s - 4 \<le> i"
      by auto
    then show ?thesis using curve_flat [of i m] k by simp
  qed
  have "Max (set w) - Min (set w) \<le> decay_curve m 180 0 - (decay_curve m 180 0 - 1 / 1024)"
    by (rule range_le [OF ne b])
  then have "Max (set w) - Min (set w) < 0.001" by simp
  then show ?thesis using len by (simp add: window_converged_def w_def)
qed

lemma quiet_all:
  assumes g: "generate_new_data_point s quiet_draws = Inr s'" and c: "on_curve s"
    and k: "184 \<le> current_iteration s"
  shows "converged_methods s' = UNIV"
proof -
  note f = generate_fields [OF g generate_readable [OF g]]
  have "m \<in> converged_methods s'" for m
    using quiet_window [OF c _ k, of m] by (auto simp add: f(1))
  then show ?thesis by auto
qed

lemma card_all: "card (UNIV :: vqe_method set) = 3"
  by (simp add: method_UNIV)

lemma quiet_step:
  assumes q: "quiet_inv s"
  shows "\<exists>s'. step (Timer quiet_draws) s = Inr s' \<and> quiet_inv s'
           \<and> (simulation_stopped s' \<or> current_iteration s' = current_iteration s + 1)
           \<and> (simulation_stopped s \<longrightarrow> s' = s)"
proof (cases "simulation_stopped s")
  case True
  have "\<not> timer_pending s"
    using q True by (simp add: quiet_inv_def core_inv_def stop_unschedules_def)
  then have "step (Timer quiet_draws) s = Inr s" by simp
  then show ?thesis using q True by simp
next
  case False
  have i: "core_inv s" and p: "timer_pending s" and c: "on_curve s"
    and k: "current_iteration s \<le> 184"
    using q False by (simp_all add: quiet_inv_def)
  obtain s' where st: "step (Timer quiet_draws) s = Inr s'"
    using step_total [OF i] by blast
  have i': "core_inv s'" using step_inv [OF i st] .
  note f = timer_fields [OF i st]
  from i st obtain s1 where g: "generate_new_data_point (s\<lparr>timer_pending := False\<rparr>) quiet_draws = Inr s1"
    and s': "s' = (if simulation_stopped s1 then s1 else s1\<lparr>timer_pending := True\<rparr>)"
    using p by (cases rule: timer_cases) simp_all
  have c1: "on_curve s1" by (rule quiet_tick [OF g]) (simp add: c)
  have c': "on_curve s'" using c1 by (simp add: s')
  have ci: "current_iteration s' = current_iteration s + 1" using f(2) p by simp
  have pe: "\<not> simulation_stopped s' \<Longrightarrow> timer_pending s'" using f(4) p by simp
  have "simulation_stopped s'" if "current_iteration s = 184"
  proof -
    have "converged_methods s1 = UNIV"
      by (rule quiet_all [OF g]) (simp_all add: c that)
    then have "converged_methods s' = UNIV" by (simp add: s')
    then show ?thesis using f(3) by (simp add: card_all)
  qed
  then have "\<not> simulation_stopped s' \<Longrightarrow> current_iteration s' \<le> 184"
    using k ci by (cases "current_iteration s = 184") simp_all
  then have "quiet_inv s'" using i' c' pe by (auto simp add: quiet_inv_def)
  then show ?thesis using st ci False by simp
qed

lemma quiet_exec:
  "quiet_inv s \<Longrightarrow>
   \<exists>s'. exec (quiet_events n) s = Inr s' \<and> quiet_inv s'
     \<and> (simulation_stopped s' \<or> current_iteration s' = current_iteration s + n)
     \<and> (simulation_stopped s \<longrightarrow> s' = s)"
proof (induction n arbitrary: s)
  case 0
  then show ?case by (simp add: quiet_events_def)
next
  case (Suc n)
  obtain s1 where 1: "step (Timer quiet_draws) s = Inr s1" "quiet_inv s1"
    "simulation_stopped s1 \<or> current_iteration s1 = current_iteration s + 1"
    "simulation_stopped s \<longrightarrow> s1 = s"
    using quiet_step [OF Suc.prems] by blast
  obtain s2 where 2: "exec (quiet_events n) s1 = Inr s2" "quiet_inv s2"
    "simulation_stopped s2 \<or> current_iteration s2 = current_iteration s1 + n"
    "simulation_stopped s1 \<longrightarrow> s2 = s1"
    using Suc.IH [OF 1(2)] by blast
  have e: "exec (quiet_events (Suc n)) s = Inr s2"
    using 1(1) 2(1) by (simp add: quiet_events_def del: step.simps)
  have "simulation_stopped s2 \<or> current_iteration s2 = current_iteration s + Suc n"
    using 1(3) 2(3) 2(4) by auto
  moreover have "simulation_stopped s \<longrightarrow> s2 = s" using 1(4) 2(4) by auto
  ultimately show ?case using e 2(2) by blast
qed

lemma session_exec:
  "session d0 es = exec (Timer d0 # es) (init_fields\<lparr>timer_pending := True\<rparr>)"
proof -
  have "init_fields\<lparr>timer_pending := False\<rparr> = init_fields" by (simp add: init_fields_def)
  then show ?thesis by (simp add: session_def)
qed

lemma quiet_session:
  "session quiet_draws (quiet_events 184) = Inr quiet_final"
  "core_inv quiet_final"
  "simulation_stopped quiet_final"
proof -
  let ?s = "init_fields\<lparr>timer_pending := True\<rparr>"
  have "\<not> simulation_stopped init_fields" by (simp add: init_fields_def)
  then have "core_inv ?s" using init_inv by (simp add: core_inv_def)
  moreover have "on_curve ?s" by (simp add: on_curve_def init_fields_def py_tail_def)
  ultimately have "quiet_inv ?s" by (simp add: quiet_inv_def init_fields_def)
  then obtain s' where e: "exec (quiet_events 185) ?s = Inr s'" and q: "quiet_inv s'"
    and k: "simulation_stopped s' \<or> current_iteration s' = current_iteration ?s + 185"
    using quiet_exec [of ?s 185] by blast
  have "quiet_events 185 = Timer quiet_draws # quiet_events 184"
    by (simp add: quiet_events_def eval_nat_numeral)
  then have s: "session quiet_draws (quiet_events 184) = Inr s'"
    using e by (simp only: session_exec)
  then have f: "quiet_final = s'" by (simp add: quiet_final_def)
  show "session quiet_draws (quiet_events 184) = Inr quiet_final" using s f by simp
  show "core_inv quiet_final" using q f by (simp add: quiet_inv_def)
  show "simulation_stopped quiet_final"
    using q k f by (auto simp add: quiet_inv_def)
qed

lemma session_inv: "session d0 es = Inr s \<Longrightarrow> core_inv s"
  using session_inv_total [of d0 es] by auto

lemma stopped_idle: "core_inv s \<Longrightarrow> simulation_stopped s \<Longrightarrow> \<not> timer_pending s"
  by (simp add: core_inv_def stop_unschedules_def)

lemma click_other: "b \<noteq> ''Run Simulation'' \<Longrightarrow> button_click b s = s"
  by (simp add: button_click_def)

lemma reset_twice:
  "button_click ''Run Simulation'' (button_click ''Run Simulation'' s) =
   button_click ''Run Simulation'' s"
  by (simp add: button_click_def)

lemma reset_pending:
  "timer_pending (button_click b s) = timer_pending s"
  by (simp add: button_click_def)

lemma idle_exec:
  "\<not> timer_pending s \<Longrightarrow>
   exec ts s = Inr (if Click ''Run Simulation'' \<in> set ts
                    then button_click ''Run Simulation'' s else s)"
proof (induction ts arbitrary: s)
  case Nil
  then show ?case by simp
next
  case (Cons e ts)
  show ?case
  proof (cases e)
    case (Timer d)
    have "step e s = Inr s" using Cons.prems by (simp add: Timer)
    then show ?thesis using Cons.IH [OF Cons.prems] by (simp add: Timer del: step.simps)
  next
    case (Click b)
    show ?thesis
    proof (cases "b = ''Run Simulation''")
      case True
      have p: "\<not> timer_pending (button_click ''Run Simulation'' s)"
        using Cons.prems by (simp add: reset_pending)
      show ?thesis using Cons.IH [OF p] by (simp add: Click True reset_twice)
    next
      case False
      then show ?thesis using Cons.IH [OF Cons.prems] by (simp add: Click click_other)
    qed
  qed
qed

lemma step_mono:
  assumes i: "core_inv s" and e: "e \<noteq> Click ''Run Simulation''"
  shows "\<exists>s'. step e s = Inr s' \<and> core_inv s'
           \<and> converged_methods s \<subseteq> converged_methods s'
           \<and> current_iteration s \<le> current_iteration s'
           \<and> (simulation_stopped s \<longrightarrow> s' = s)"
proof (cases e)
  case (Timer d)
  obtain s' where st: "step (Timer d) s = Inr s'" using step_total [OF i] by blast
  note f = timer_fields [OF i st]
  have "converged_methods s \<subseteq> converged_methods s'" unfolding f(1) by auto
  moreover have "current_iteration s \<le> current_iteration s'" unfolding f(2) by simp
  moreover have "s' = s" if "simulation_stopped s"
    using st stopped_idle [OF i that] by simp
  ultimately show ?thesis using st step_inv [OF i st] by (simp add: Timer del: step.simps)
next
  case (Click b)
  then have "b \<noteq> ''Run Simulation''" using e by simp
  then show ?thesis using i by (simp add: Click click_other)
qed

lemma exec_mono:
  "core_inv s \<Longrightarrow> Click ''Run Simulation'' \<notin> set ts \<Longrightarrow>
   \<exists>t. exec ts s = Inr t \<and> core_inv t
     \<and> converged_methods s \<subseteq> converged_methods t
     \<and> current_iteration s \<le> current_iteration t
     \<and> (simulation_stopped s \<longrightarrow> t = s)"
proof (induction ts arbitrary: s)
  case Nil
  then show ?case by simp
next
  case (Cons e ts)
  have e: "e \<noteq> Click ''Run Simulation''" and ts: "Click ''Run Simulation'' \<notin> set ts"
    using Cons.prems(2) by auto
  obtain s1 where 1: "step e s = Inr s1" "core_inv s1"
    "converged_methods s \<subseteq> converged_methods s1"
    "current_iteration s \<le> current_iteration s1"
    "simulation_stopped s \<longrightarrow> s1 = s"
    using step_mono [OF Cons.prems(1) e] by blast
  obtain t where 2: "exec ts s1 = Inr t" "core_inv t"
    "converged_methods s1 \<subseteq> converged_methods t"
    "current_iteration s1 \<le> current_iteration t"
    "simulation_stopped s1 \<longrightarrow> t = s1"
    using Cons.IH [OF 1(2) ts] by blast
  have "exec (e # ts) s = Inr t" using 1(1) 2(1) by simp
  moreover have "converged_methods s \<subseteq> converged_methods t" using 1(3) 2(3) by blast
  moreover have "current_iteration s \<le> current_iteration t" using 1(4) 2(4) by linarith
  moreover have "simulation_stopped s \<longrightarrow> t = s" using 1(5) 2(5) by auto
  ultimately show ?case using 2(2) by blast
qed

lemma quiet_card: "card (converged_methods quiet_final) = 3" "\<not> timer_pending quiet_final"
  using quiet_session(2,3)
  by (simp_all add: core_inv_def stop_iff_all_def stop_unschedules_def)

lemma last_iteration_kept:
  assumes "generate_new_data_point s d = Inr s'"
  shows "last (iterations (data_storage s' m)) = current_iteration s"
proof -
  have "iterations (data_storage s' m) =
          (if length (iterations (data_storage s normal_vqe)) \<ge> 50
           then py_tail 50 (iterations (data_storage s m) @ [current_iteration s])
           else iterations (data_storage s m) @ [current_iteration s])"
    by (rule generate_fields(6) [OF assms generate_readable [OF assms]])
  then show ?thesis by (simp add: last_py_tail)
qed

lemma window_max:
  assumes "5 \<le> length xs"
  shows "py_max (py_tail 5 xs) = Inr (Max (set (drop (length xs - 5) xs)))"
    and "py_min (py_tail 5 xs) = Inr (Min (set (drop (length xs - 5) xs)))"
proof -
  have ne: "py_tail 5 xs \<noteq> []" using assms by (intro py_tail_nonempty) auto
  show "py_max (py_tail 5 xs) = Inr (Max (set (drop (length xs - 5) xs)))"
    using py_max_Max [OF ne] by (simp add: py_tail_def)
  show "py_min (py_tail 5 xs) = Inr (Min (set (drop (length xs - 5) xs)))"
    using py_min_Min [OF ne] by (simp add: py_tail_def)
qed

lemma exec_append:
  "exec (xs @ ys) a = (case exec xs a of Inl x \<Rightarrow> Inl x | Inr b \<Rightarrow> exec ys b)"
  by (induction xs arbitrary: a) (simp_all split: sum.splits)

lemma draw_of_ok: "draws_ok d \<Longrightarrow> draw_ok (draw_of d m)"
  by (cases d; cases m) simp_all

lemma jitter_bound:
  assumes "draw_ok u"
  shows "\<bar>jitter m * (u - 0.5)\<bar> \<le> jitter m / 2"
proof -
  have "\<bar>u - 0.5\<bar> \<le> 1 / 2" using assms unfolding draw_ok_def by linarith
  moreover have "0 \<le> jitter m" by (cases m) simp_all
  ultimately have "jitter m * \<bar>u - 0.5\<bar> \<le> jitter m * (1 / 2)"
    by (intro mult_left_mono)
  then show ?thesis using \<open>0 \<le> jitter m\<close> by (simp add: abs_mult)
qed

lemma converged_tick:
  assumes g: "generate_new_data_point s d = Inr s'" and m: "m \<in> converged_methods s"
  shows "last (energy (data_storage s' m)) =
           last (energy (data_storage s m)) + jitter m * (draw_of d m - 0.5)"
  using last_kept [OF g, of m] m by (simp add: next_value_def)

lemma jitter_step:
  assumes i: "core_inv s" and m: "m \<in> converged_methods s" and d: "draws_ok d"
    and st: "step (Timer d) s = Inr s'"
  shows "\<bar>last (energy (data_storage s' m)) - last (energy (data_storage s m))\<bar> \<le> jitter m / 2"
  using i st
proof (cases rule: timer_cases)
  case idle
  have "0 \<le> jitter m" by (cases m) simp_all
  then show ?thesis by (simp add: idle)
next
  case (fire s1)
  have "data_storage s' = data_storage s1" by (simp add: fire(4))
  moreover have "last (energy (data_storage s1 m)) =
      last (energy (data_storage s m)) + jitter m * (draw_of d m - 0.5)"
    using converged_tick [OF fire(2), of m] m by simp
  ultimately show ?thesis using jitter_bound [OF draw_of_ok [OF d], of m m] by simp
qed

lemma jitter_walk:
  "core_inv s \<Longrightarrow> m \<in> converged_methods s \<Longrightarrow> list_all draws_ok ds \<Longrightarrow>
   \<exists>t. exec (map Timer ds) s = Inr t
     \<and> \<bar>last (energy (data_storage t m)) - last (energy (data_storage s m))\<bar>
         \<le> real (length ds) * (jitter m / 2)"
proof (induction ds arbitrary: s)
  case Nil
  then show ?case by simp
next
  case (Cons d ds)
  have d: "draws_ok d" and ds: "list_all draws_ok ds" using Cons.prems(3) by simp_all
  obtain s1 where 1: "step (Timer d) s = Inr s1" "core_inv s1"
    "converged_methods s \<subseteq> converged_methods s1"
    using step_mono [OF Cons.prems(1), of "Timer d"] by auto
  have m1: "m \<in> converged_methods s1" using 1(3) Cons.prems(2) by blast
  obtain t where 2: "exec (map Timer ds) s1 = Inr t"
    "\<bar>last (energy (data_storage t m)) - last (energy (data_storage s1 m))\<bar>
         \<le> real (length ds) * (jitter m / 2)"
    using Cons.IH [OF 1(2) m1 ds] by blast
  have 3: "\<bar>last (energy (data_storage s1 m)) - last (energy (data_storage s m))\<bar>
         \<le> jitter m / 2"
    by (rule jitter_step [OF Cons.prems(1) Cons.prems(2) d 1(1)])
  have "exec (map Timer (d # ds)) s = Inr t" using 1(1) 2(1) by (simp del: step.simps)
  moreover have "\<bar>last (energy (data_storage t m)) - last (energy (data_storage s m))\<bar>
         \<le> real (length (d # ds)) * (jitter m / 2)"
  proof -
    have "\<bar>last (energy (data_storage t m)) - last (energy (data_storage s m))\<bar>
            \<le> real (length ds) * (jitter m / 2) + jitter m / 2"
      using 2(2) 3 by linarith
    also have "\<dots> = real (length (d # ds)) * (jitter m / 2)"
      by (simp add: algebra_simps)
    finally show ?thesis .
  qed
  ultimately show ?case by blast
qed

lemma demo_last:
  "0 < k \<Longrightarrow> last (energy (data_storage (demo_state k p) m)) = demo_energy m (k - 1)"
  by (cases k) (simp_all add: demo_state_def del: demo_energy.simps)

lemma py_tail_zip:
  "length xs = length ys \<Longrightarrow> py_tail n (zip xs ys) = zip (py_tail n xs) (py_tail n ys)"
  by (simp add: py_tail_def drop_zip)

lemma tick_lists:
  assumes g: "generate_new_data_point s d = Inr s'" and a: "aligned s"
  shows "iterations (data_storage s' m) =
           py_tail 50 (iterations (data_storage s m) @ [current_iteration s])"
    and "energy (data_storage s' m) =
           py_tail 50 (energy (data_storage s m) @ [next_value s d m])"
proof -
  note f = generate_fields [OF g generate_readable [OF g]]
  define n where "n = length (iterations (data_storage s normal_vqe))"
  have l: "length (iterations (data_storage s m)) = n" "length (energy (data_storage s m)) = n"
    using a by (simp_all add: aligned_def n_def)
  show "iterations (data_storage s' m) =
           py_tail 50 (iterations (data_storage s m) @ [current_iteration s])"
    unfolding f(6) n_def [symmetric] using l by (simp add: py_tail_short)
  show "energy (data_storage s' m) =
           py_tail 50 (energy (data_storage s m) @ [next_value s d m])"
    unfolding f(5) n_def [symmetric] appended_def using l by (simp add: py_tail_short)
qed

lemma tick_zip:
  assumes g: "generate_new_data_point s d = Inr s'" and a: "aligned s"
  shows "zip (iterations (data_storage s' m)) (energy (data_storage s' m)) =
           py_tail 50 (zip (iterations (data_storage s m)) (energy (data_storage s m))
                       @ [(current_iteration s, next_value s d m)])"
proof -
  have l: "length (iterations (data_storage s m)) = length (energy (data_storage s m))"
    using a by (simp add: aligned_def)
  show ?thesis
    unfolding tick_lists [OF g a] using l by (simp add: py_tail_zip [symmetric])
qed

lemma aligned_pending: "core_inv s \<Longrightarrow> aligned (s\<lparr>timer_pending := p\<rparr>)"
  by (simp add: core_inv_def)

lemma next_value_pending [simp]:
  "next_value (s\<lparr>timer_pending := p\<rparr>) d m = next_value s d m"
  by (simp add: next_value_def)

lemma timer_zip:
  assumes i: "core_inv s" and st: "step (Timer d) s = Inr s'"
    and h: "zip (iterations (data_storage s m)) (energy (data_storage s m)) = py_tail 50 h"
  shows "zip (iterations (data_storage s' m)) (energy (data_storage s' m)) =
           py_tail 50 (h @ appended_pair s d m)"
  using i st
proof (cases rule: timer_cases)
  case idle
  then show ?thesis using h by (simp add: appended_pair_def)
next
  case (fire s1)
  have p: "appended_pair s d m = [(current_iteration s, next_value s d m)]"
    using pending_fires [OF i fire(1)] fire(1) new_energy_next_value [OF inv_readable [OF i], of m d]
    by (simp add: appended_pair_def del: new_energy.simps)
  have "data_storage s' = data_storage s1" by (simp add: fire(4))
  then have "zip (iterations (data_storage s' m)) (energy (data_storage s' m)) =
      py_tail 50 (zip (iterations (data_storage s m)) (energy (data_storage s m))
                       @ [(current_iteration s, next_value s d m)])"
    using tick_zip [OF fire(2) aligned_pending [OF i], of m] by simp
  then show ?thesis unfolding h p by (simp only: py_tail_py_tail_snoc)
qed

lemma history_exec:
  "core_inv s \<Longrightarrow> exec es s = Inr t \<Longrightarrow>
   zip (iterations (data_storage s m)) (energy (data_storage s m)) = py_tail 50 h \<Longrightarrow>
   zip (iterations (data_storage t m)) (energy (data_storage t m)) =
     py_tail 50 (history es s m h)"
proof (induction es arbitrary: s h)
  case Nil
  then show ?case by simp
next
  case (Cons e es)
  obtain s1 where s1: "step e s = Inr s1" using step_total [OF Cons.prems(1)] by blast
  have i1: "core_inv s1" using step_inv [OF Cons.prems(1) s1] .
  have e1: "exec es s1 = Inr t" using Cons.prems(2) s1 by simp
  show ?case
  proof (cases e)
    case (Timer d)
    have "zip (iterations (data_storage s1 m)) (energy (data_storage s1 m)) =
           py_tail 50 (h @ appended_pair s d m)"
      using timer_zip [OF Cons.prems(1) _ Cons.prems(3)] s1 unfolding Timer by blast
    then have "zip (iterations (data_storage t m)) (energy (data_storage t m)) =
           py_tail 50 (history es s1 m (h @ appended_pair s d m))"
      by (rule Cons.IH [OF i1 e1])
    then show ?thesis using s1 unfolding Timer by (simp del: step.simps)
  next
    case (Click b)
    have b: "s1 = button_click b s" using s1 unfolding Click by simp
    have "zip (iterations (data_storage s1 m)) (energy (data_storage s1 m)) =
           py_tail 50 (if b = ''Run Simulation'' then [] else h)"
      using Cons.prems(3) by (simp add: b button_click_def py_tail_def)
    then have "zip (iterations (data_storage t m)) (energy (data_storage t m)) =
           py_tail 50 (history es s1 m (if b = ''Run Simulation'' then [] else h))"
      by (rule Cons.IH [OF i1 e1])
    then show ?thesis unfolding Click b by simp
  qed
qed

lemma init_pending_inv: "core_inv (init_fields\<lparr>timer_pending := True\<rparr>)"
proof -
  have "\<not> simulation_stopped init_fields" by (simp add: init_fields_def)
  then show ?thesis using init_inv by (simp add: core_inv_def)
qed

lemma py_tail_upt: "py_tail n [a..<b] = [max a (b - n)..<b]"
  using py_tail_map_range [of n "\<lambda>x. x" a b] by simp

lemma tick_numbers:
  assumes g: "generate_new_data_point s d = Inr s'" and a: "aligned s"
    and n: "iterations (data_storage s m) = [current_iteration s - 50..<current_iteration s]"
  shows "iterations (data_storage s' m) = [current_iteration s' - 50..<current_iteration s']"
proof -
  define k where "k = current_iteration s"
  have k': "current_iteration s' = Suc k"
    using generate_fields(2) [OF g generate_readable [OF g]] by (simp add: k_def)
  have "iterations (data_storage s' m) = py_tail 50 ([k - 50..<k] @ [k])"
    using tick_lists(1) [OF g a, of m] n by (simp add: k_def)
  also have "[k - 50..<k] @ [k] = [k - 50..<Suc k]" by simp
  also have "py_tail 50 [k - 50..<Suc k] = [max (k - 50) (Suc k - 50)..<Suc k]"
    by (rule py_tail_upt)
  also have "max (k - 50) (Suc k - 50) = Suc k - 50" by (simp add: max_def)
  finally show ?thesis by (simp only: k')
qed

lemma step_numbers:
  assumes i: "core_inv s" and st: "step e s = Inr s'"
    and n: "iterations (data_storage s m) = [current_iteration s - 50..<current_iteration s]"
  shows "iterations (data_storage s' m) = [current_iteration s' - 50..<current_iteration s']"
proof (cases e)
  case (Timer d)
  from i st [unfolded Timer] show ?thesis
  proof (cases rule: timer_cases)
    case idle
    then show ?thesis using n by simp
  next
    case (fire s1)
    have "iterations (data_storage s1 m) = [current_iteration s1 - 50..<current_iteration s1]"
      by (rule tick_numbers [OF fire(2) aligned_pending [OF i]]) (simp add: n)
    then show ?thesis by (simp add: fire(4))
  qed
next
  case (Click b)
  have "s' = button_click b s" using st unfolding Click by simp
  then show ?thesis using n by (simp add: button_click_def)
qed

lemma exec_numbers:
  "core_inv s \<Longrightarrow> exec es s = Inr t \<Longrightarrow>
   iterations (data_storage s m) = [current_iteration s - 50..<current_iteration s] \<Longrightarrow>
   iterations (data_storage t m) = [current_iteration t - 50..<current_iteration t]"
proof (induction es arbitrary: s)
  case Nil
  then show ?case by simp
next
  case (Cons e es)
  obtain s1 where s1: "step e s = Inr s1" using step_total [OF Cons.prems(1)] by blast
  have i1: "core_inv s1" using step_inv [OF Cons.prems(1) s1] .
  have e1: "exec es s1 = Inr t" using Cons.prems(2) s1 by simp
  show ?case
    by (rule Cons.IH [OF i1 e1 step_numbers [OF Cons.prems(1) s1 Cons.prems(3)]])
qed

lemma session_numbers:
  assumes "session d0 es = Inr s"
  shows "iterations (data_storage s m) = [current_iteration s - 50..<current_iteration s]"
proof -
  have e: "exec (Timer d0 # es) (init_fields\<lparr>timer_pending := True\<rparr>) = Inr s"
    using assms by (simp only: session_exec)
  show ?thesis
    by (rule exec_numbers [OF init_pending_inv e]) (simp add: init_fields_def)
qed

lemma first_tick:
  "\<exists>s1. session d0 [] = Inr s1 \<and> current_iteration s1 = 1 \<and> timer_pending s1
     \<and> \<not> simulation_stopped s1"
proof -
  have r: "last_readable init_fields" by (simp add: last_readable_def init_fields_def)
  obtain s1 where g: "generate_new_data_point init_fields d0 = Inr s1"
    using generate_total [OF r] by blast
  note f = generate_fields [OF g r]
  have "\<not> window_converged (appended init_fields d0 m)" for m
    by (simp add: window_converged_def appended_def init_fields_def)
  then have c: "converged_methods s1 = {}" unfolding f(1) by (simp add: init_fields_def)
  have ns: "\<not> simulation_stopped s1" unfolding f(3) c by (simp add: init_fields_def)
  have ci: "current_iteration s1 = 1" unfolding f(2) by (simp add: init_fields_def)
  have "start_data_generation init_fields d0 =
          Inr (if simulation_stopped s1 then s1 else s1\<lparr>timer_pending := True\<rparr>)"
    by (rule start_running [OF _ _ g]) (simp_all add: init_fields_def)
  then have "session d0 [] = Inr (s1\<lparr>timer_pending := True\<rparr>)"
    using ns by (simp add: session_def)
  then show ?thesis using ci ns by simp
qed

lemma quiet_all_converged: "converged_methods quiet_final = UNIV"
proof -
  have "card (converged_methods quiet_final) = card (UNIV :: vqe_method set)"
    by (simp add: quiet_card card_all)
  then show ?thesis by (intro card_subset_eq [OF _ subset_UNIV]) (simp_all add: method_UNIV)
qed

section \<open>Restart\<close>

text \<open>
  C5. The restart action, from any state whatever, gives \<open>current_iteration = 0\<close>, an
  empty convergence set, a cleared stop flag and three empty series.
\<close>

theorem C5_reset_clears:
  "current_iteration (button_click ''Run Simulation'' s) = 0
   \<and> converged_methods (button_click ''Run Simulation'' s) = {}
   \<and> simulation_stopped (button_click ''Run Simulation'' s) = False
   \<and> iterations (data_storage (button_click ''Run Simulation'' s) m) = []
   \<and> energy (data_storage (button_click ''Run Simulation'' s) m) = []"
  by (simp add: button_click_def)

section \<open>Convergence detection\<close>

text \<open>
  C1. In every tick that completes, a method is added to the convergence set exactly when
  it was not in the set, its series (with the energy \<open>v\<close> of this tick appended) holds at
  least five energies, and the largest of the last five is less than 0.001 above the
  smallest. The same holds for \<^verbatim>\<open>check_convergence\<close> on any state \<open>s0\<close>, where it
  never raises. With fewer than five energies the right-hand side is false, so the method
  is not added.
\<close>

theorem C1_convergence_trigger:
  assumes "generate_new_data_point s d = Inr s'"
    and "new_energy s m (draw_of d m) = Inr v"
  shows "((m \<in> converged_methods s' \<and> m \<notin> converged_methods s) =
           (m \<notin> converged_methods s
            \<and> 5 \<le> length (energy (data_storage s m) @ [v])
            \<and> Max (set (drop (length (energy (data_storage s m) @ [v]) - 5)
                            (energy (data_storage s m) @ [v])))
                - Min (set (drop (length (energy (data_storage s m) @ [v]) - 5)
                            (energy (data_storage s m) @ [v]))) < 0.001))
         \<and> (\<exists>t. check_convergence s0 = Inr t
               \<and> (m \<in> converged_methods t \<and> m \<notin> converged_methods s0) =
                   (m \<notin> converged_methods s0
                    \<and> 5 \<le> length (energy (data_storage s0 m))
                    \<and> Max (set (drop (length (energy (data_storage s0 m)) - 5)
                                    (energy (data_storage s0 m))))
                        - Min (set (drop (length (energy (data_storage s0 m)) - 5)
                                    (energy (data_storage s0 m)))) < 0.001))"
proof
  have v: "energy (data_storage s m) @ [v] = appended s d m"
    using new_energy_value [OF assms] by (simp add: appended_def)
  have "converged_methods s' = converged_methods s \<union> {m. window_converged (appended s d m)}"
    by (rule generate_fields(1) [OF assms(1) generate_readable [OF assms(1)]])
  then show "(m \<in> converged_methods s' \<and> m \<notin> converged_methods s) =
           (m \<notin> converged_methods s
            \<and> 5 \<le> length (energy (data_storage s m) @ [v])
            \<and> Max (set (drop (length (energy (data_storage s m) @ [v]) - 5)
                            (energy (data_storage s m) @ [v])))
                - Min (set (drop (length (energy (data_storage s m) @ [v]) - 5)
                            (energy (data_storage s m) @ [v]))) < 0.001)"
    unfolding v by (auto simp add: window_converged_def py_tail_def)
next
  show "\<exists>t. check_convergence s0 = Inr t
               \<and> (m \<in> converged_methods t \<and> m \<notin> converged_methods s0) =
                   (m \<notin> converged_methods s0
                    \<and> 5 \<le> length (energy (data_storage s0 m))
                    \<and> Max (set (drop (length (energy (data_storage s0 m)) - 5)
                                    (energy (data_storage s0 m))))
                        - Min (set (drop (length (energy (data_storage s0 m)) - 5)
                                    (energy (data_storage s0 m)))) < 0.001)"
    unfolding check_convergence_eq by (auto simp add: window_converged_def py_tail_def)
qed

theorem C1_convergence_trigger_witness:
  "generate_new_data_point (demo_state 4 False) (demo_draws 4) = Inr (demo_state 5 False)
   \<and> new_energy (demo_state 4 False) normal_vqe (draw_of (demo_draws 4) normal_vqe) = Inr (- 0.8)
   \<and> normal_vqe \<in> converged_methods (demo_state 5 False)
   \<and> normal_vqe \<notin> converged_methods (demo_state 4 False)
   \<and> 5 \<le> length (energy (data_storage (demo_state 4 False) normal_vqe) @ [- 0.8])
   \<and> Max (set (drop (length (energy (data_storage (demo_state 4 False) normal_vqe) @ [- 0.8]) - 5)
                    (energy (data_storage (demo_state 4 False) normal_vqe) @ [- 0.8])))
       - Min (set (drop (length (energy (data_storage (demo_state 4 False) normal_vqe) @ [- 0.8]) - 5)
                    (energy (data_storage (demo_state 4 False) normal_vqe) @ [- 0.8])))
       < 0.001"
proof -
  have g: "generate_new_data_point (demo_state 4 False) (demo_draws 4) = Inr (demo_state 5 False)"
    using demo_tick [of 4 False] by simp
  have "new_energy (demo_state 4 False) normal_vqe (draw_of (demo_draws 4) normal_vqe)
          = Inr (next_value (demo_state 4 False) (demo_draws 4) normal_vqe)"
    by (rule new_energy_next_value [OF demo_readable])
  then have n: "new_energy (demo_state 4 False) normal_vqe (draw_of (demo_draws 4) normal_vqe)
          = Inr (- 0.8)"
    by (simp add: demo_next_value del: new_energy.simps)
  have c: "normal_vqe \<in> converged_methods (demo_state 5 False)
           \<and> normal_vqe \<notin> converged_methods (demo_state 4 False)"
    by (simp add: demo_state_def)
  show ?thesis
    using C1_convergence_trigger [OF g n, of init_fields] g n c by blast
qed

section \<open>Sample generation\<close>

text \<open>
  C6. For a method outside the convergence set the generated value is
  \<open>base - amplitude * (1 - exp (- i / decay)) + noise * u\<close> with the constants of the
  table of the specification, \<open>i\<close> the current iteration and \<open>u\<close> the draw; it is the
  energy that a completed tick leaves at the end of the method's series. With the draw 0
  at iteration 0, \<open>vqe_uccsd_hybrid\<close> gives exactly \<open>-1\<close>.
\<close>

theorem C6_unconverged_value:
  assumes "m \<notin> converged_methods s"
  shows "new_energy s m u = Inr (decay_curve m (current_iteration s) u)
         \<and> decay_curve m i u =
             (case curve_params m of (base, amplitude, decay, noise) \<Rightarrow>
                base - amplitude * (1 - exp (- real i / decay)) + noise * u)
         \<and> curve_params normal_vqe = (- 0.8, 0.4, 20, 0.08)
         \<and> curve_params vqe_uccsd_hybrid = (- 1.0, 0.4, 10, 0.03)
         \<and> curve_params vqe_uccsd_hybrid_zne = (- 1.1, 0.5, 8, 0.02)
         \<and> (generate_new_data_point s d = Inr s' \<longrightarrow>
              last (energy (data_storage s' m)) = decay_curve m (current_iteration s) (draw_of d m))
         \<and> (m = vqe_uccsd_hybrid \<and> current_iteration s = 0 \<longrightarrow> new_energy s m 0 = Inr (- 1))"
proof -
  have 1: "new_energy s m u = Inr (decay_curve m (current_iteration s) u)"
    using assms by (cases m) (simp_all add: decay_curve_def)
  have 2: "last (energy (data_storage s' m)) = decay_curve m (current_iteration s) (draw_of d m)"
    if "generate_new_data_point s d = Inr s'"
    using last_kept [OF that, of m] assms by (simp add: next_value_def)
  have 3: "new_energy s m 0 = Inr (- 1)" if "m = vqe_uccsd_hybrid" "current_iteration s = 0"
    using assms that by simp
  show ?thesis using 1 2 3 by (simp add: decay_curve_def del: new_energy.simps)
qed

theorem C6_unconverged_value_witness:
  "vqe_uccsd_hybrid \<notin> converged_methods init_fields
   \<and> current_iteration init_fields = 0
   \<and> new_energy init_fields vqe_uccsd_hybrid 0 = Inr (- 1)
   \<and> generate_new_data_point init_fields (demo_draws 0) = Inr (demo_state 1 False)
   \<and> last (energy (data_storage (demo_state 1 False) vqe_uccsd_hybrid)) = - 1"
proof -
  have a: "vqe_uccsd_hybrid \<notin> converged_methods init_fields" "current_iteration init_fields = 0"
    by (simp_all add: init_fields_def)
  have g: "generate_new_data_point init_fields (demo_draws 0) = Inr (demo_state 1 False)"
    using demo_tick [of 0 False] by (simp add: demo_init)
  have "decay_curve vqe_uccsd_hybrid 0 (draw_of (demo_draws 0) vqe_uccsd_hybrid) = - 1"
    by (simp add: decay_curve_def demo_draws_def)
  then show ?thesis
    using C6_unconverged_value [OF a(1), where u = 0 and i = 0 and d = "demo_draws 0"
        and s' = "demo_state 1 False"] a g
    by (simp del: new_energy.simps)
qed

section \<open>Stopping\<close>

text \<open>
  C2. In every state that a session reaches, the stop flag is set exactly when the
  convergence set holds three methods; since every prefix of a session is a session, the
  flag is set in the tick that brings the set to three and not before: a completed tick
  leaves the flag set exactly when it was set already or the set has three members at the
  end of the tick. From a state with
  the flag set, a further call of \<^verbatim>\<open>start_data_generation\<close> returns the state as it is,
  and so does every sequence of timer events: no series gets another sample. The flag
  does get set: the session whose draws are all 0 has it set after 185 ticks.
\<close>

theorem C2_stop_when_all_converged:
  assumes "session d0 es = Inr s"
  shows "simulation_stopped s = (card (converged_methods s) = 3)
         \<and> (generate_new_data_point s d = Inr t \<longrightarrow>
              simulation_stopped t = (simulation_stopped s \<or> card (converged_methods t) = 3))
         \<and> (simulation_stopped s \<longrightarrow>
              start_data_generation s d = Inr s \<and> exec (map Timer ds) s = Inr s)
         \<and> (\<exists>q. session quiet_draws (quiet_events 184) = Inr q \<and> simulation_stopped q)"
proof -
  have q: "\<exists>q. session quiet_draws (quiet_events 184) = Inr q \<and> simulation_stopped q"
    using quiet_session(1,3) by blast
  have 0: "simulation_stopped t = (simulation_stopped s \<or> card (converged_methods t) = 3)"
    if g: "generate_new_data_point s d = Inr t"
    by (rule generate_fields(3) [OF g generate_readable [OF g]])
  have i: "core_inv s" using session_inv [OF assms] .
  have 1: "simulation_stopped s = (card (converged_methods s) = 3)"
    using i by (simp add: core_inv_def stop_iff_all_def)
  have 2: "start_data_generation s d = Inr s" if "simulation_stopped s"
  proof -
    have "s\<lparr>simulation_stopped := True\<rparr> = s" using that by simp
    then show ?thesis using that 1 by (simp add: start_data_generation_def)
  qed
  have 3: "exec (map Timer ds) s = Inr s" if "simulation_stopped s"
  proof -
    have "Click ''Run Simulation'' \<notin> set (map Timer ds)" by auto
    then show ?thesis using idle_exec [OF stopped_idle [OF i that], of "map Timer ds"] by simp
  qed
  show ?thesis using 0 1 2 3 q by blast
qed

theorem C2_stop_when_all_converged_witness:
  "session quiet_draws (quiet_events 184) = Inr quiet_final
   \<and> simulation_stopped quiet_final
   \<and> card (converged_methods quiet_final) = 3
   \<and> start_data_generation quiet_final quiet_draws = Inr quiet_final
   \<and> exec (map Timer [quiet_draws, demo_draws 1]) quiet_final = Inr quiet_final"
  using C2_stop_when_all_converged [OF quiet_session(1), where d = quiet_draws
      and ds = "[quiet_draws, demo_draws 1]"]
    quiet_session(1,3)
  by blast

section \<open>The iteration counter\<close>

text \<open>
  C7. A completed tick adds exactly 1 to \<open>current_iteration\<close>, and the one number it
  read at its start is the iteration stored for each of the three methods. In a session,
  a timer event adds 1 when a tick is in the queue and 0 otherwise; over any events
  without a restart the counter does not decrease; and from a state with the stop flag
  set such events leave the whole state, so also the counter, as it is. The tick that the
  constructor runs brings the counter from 0 to 1 and leaves a tick in the queue.
\<close>

theorem C7_iteration_counter:
  assumes "session d0 es = Inr s"
  shows "(generate_new_data_point s d = Inr t \<longrightarrow>
            current_iteration t = current_iteration s + 1
            \<and> last (iterations (data_storage t normal_vqe)) = current_iteration s
            \<and> last (iterations (data_storage t vqe_uccsd_hybrid)) = current_iteration s
            \<and> last (iterations (data_storage t vqe_uccsd_hybrid_zne)) = current_iteration s)
         \<and> (\<exists>s'. step (Timer d) s = Inr s'
               \<and> current_iteration s' = current_iteration s + (if timer_pending s then 1 else 0))
         \<and> (Click ''Run Simulation'' \<notin> set ts \<longrightarrow>
              (\<exists>s'. exec ts s = Inr s' \<and> current_iteration s \<le> current_iteration s'
                 \<and> (simulation_stopped s \<longrightarrow> s' = s)))
         \<and> (\<exists>s1. session d0 [] = Inr s1 \<and> current_iteration s1 = 1 \<and> timer_pending s1)"
proof -
  have f: "\<exists>s1. session d0 [] = Inr s1 \<and> current_iteration s1 = 1 \<and> timer_pending s1"
    using first_tick [of d0] by blast
  have i: "core_inv s" using session_inv [OF assms] .
  have 1: "current_iteration t = current_iteration s + 1
            \<and> last (iterations (data_storage t normal_vqe)) = current_iteration s
            \<and> last (iterations (data_storage t vqe_uccsd_hybrid)) = current_iteration s
            \<and> last (iterations (data_storage t vqe_uccsd_hybrid_zne)) = current_iteration s"
    if g: "generate_new_data_point s d = Inr t"
    using generate_fields(2) [OF g generate_readable [OF g]] last_iteration_kept [OF g]
    by simp
  obtain s' where st: "step (Timer d) s = Inr s'" using step_total [OF i] by blast
  have 2: "\<exists>s'. step (Timer d) s = Inr s'
               \<and> current_iteration s' = current_iteration s + (if timer_pending s then 1 else 0)"
    using st timer_fields(2) [OF i st] by blast
  have 3: "\<exists>s'. exec ts s = Inr s' \<and> current_iteration s \<le> current_iteration s'
                 \<and> (simulation_stopped s \<longrightarrow> s' = s)"
    if "Click ''Run Simulation'' \<notin> set ts"
    using exec_mono [OF i that] by blast
  show ?thesis using 1 2 3 f by blast
qed

theorem C7_iteration_counter_witness:
  "session (demo_draws 0) (demo_events 1 5) = Inr (demo_state 5 True)
   \<and> step (Timer (demo_draws 5)) (demo_state 5 True) = Inr (demo_state 6 True)
   \<and> timer_pending (demo_state 5 True)
   \<and> current_iteration (demo_state 6 True) = current_iteration (demo_state 5 True) + 1
   \<and> Click ''Run Simulation'' \<notin> set (demo_events 5 8)
   \<and> exec (demo_events 5 8) (demo_state 5 True) = Inr (demo_state 8 True)
   \<and> current_iteration (demo_state 5 True) \<le> current_iteration (demo_state 8 True)
   \<and> session quiet_draws (quiet_events 184) = Inr quiet_final
   \<and> simulation_stopped quiet_final
   \<and> Click ''Run Simulation'' \<notin> set (quiet_events 3)
   \<and> exec (quiet_events 3) quiet_final = Inr quiet_final"
proof -
  have q: "Click ''Run Simulation'' \<notin> set (quiet_events 3)"
    by (auto simp add: quiet_events_def)
  have "exec (quiet_events 3) quiet_final = Inr quiet_final"
    using C7_iteration_counter [OF quiet_session(1), where ts = "quiet_events 3"]
      q quiet_session(3)
    by auto
  note f = this q quiet_session(1,3)
  have s: "session (demo_draws 0) (demo_events 1 5) = Inr (demo_state 5 True)"
    by (rule demo_session) simp_all
  have st: "step (Timer (demo_draws 5)) (demo_state 5 True) = Inr (demo_state 6 True)"
    using demo_step [of 5] by simp
  have e: "exec (demo_events 5 8) (demo_state 5 True) = Inr (demo_state 8 True)"
    by (rule demo_exec) simp_all
  have c: "Click ''Run Simulation'' \<notin> set (demo_events 5 8)"
    by (auto simp add: demo_events_def)
  have p: "timer_pending (demo_state 5 True)" by (simp add: demo_state_def)
  show ?thesis
    using C7_iteration_counter [OF s, where d = "demo_draws 5" and ts = "demo_events 5 8"]
      s st e c p f
    by (auto simp del: step.simps)
qed

section \<open>The convergence set\<close>

text \<open>
  C8. From a state that a session reaches, any events without a restart leave every
  member of the convergence set in it, so a method enters the set at most once between
  two restarts. The convergence check returns a state unchanged for a method that is in
  the set. An event after which a member is missing is the restart, and the restart gives
  the empty set. The set does grow: in the session whose draws are all 0 it holds all
  three methods after 185 ticks.
\<close>

theorem C8_set_only_grows:
  assumes "session d0 es = Inr s"
  shows "(Click ''Run Simulation'' \<notin> set ts \<longrightarrow>
            (\<exists>t. exec ts s = Inr t \<and> converged_methods s \<subseteq> converged_methods t))
         \<and> (m \<in> converged_methods s \<longrightarrow> check_method m s = Inr s)
         \<and> (\<exists>t. check_convergence s = Inr t \<and> converged_methods s \<subseteq> converged_methods t)
         \<and> (step e s = Inr t \<and> \<not> converged_methods s \<subseteq> converged_methods t
              \<longrightarrow> e = Click ''Run Simulation'')
         \<and> converged_methods (button_click ''Run Simulation'' s) = {}
         \<and> (\<exists>q. session quiet_draws (quiet_events 184) = Inr q \<and> converged_methods q = UNIV)"
proof -
  have i: "core_inv s" using session_inv [OF assms] .
  have q: "\<exists>q. session quiet_draws (quiet_events 184) = Inr q \<and> converged_methods q = UNIV"
    using quiet_session(1) quiet_all_converged by blast
  have 1: "\<exists>t. exec ts s = Inr t \<and> converged_methods s \<subseteq> converged_methods t"
    if "Click ''Run Simulation'' \<notin> set ts"
    using exec_mono [OF i that] by blast
  have 2: "check_method m s = Inr s" if "m \<in> converged_methods s"
    using that by (simp add: check_method_eq)
  have 3: "\<exists>t. check_convergence s = Inr t \<and> converged_methods s \<subseteq> converged_methods t"
    by (simp add: check_convergence_eq)
  have 4: "e = Click ''Run Simulation''"
    if "step e s = Inr t" "\<not> converged_methods s \<subseteq> converged_methods t"
  proof (rule ccontr)
    assume "e \<noteq> Click ''Run Simulation''"
    then show False using step_mono [OF i, of e] that by auto
  qed
  have 5: "converged_methods (button_click ''Run Simulation'' s) = {}"
    by (simp add: button_click_def)
  show ?thesis using 1 2 3 4 5 q by blast
qed

theorem C8_set_only_grows_witness:
  "session (demo_draws 0) (demo_events 1 5) = Inr (demo_state 5 True)
   \<and> Click ''Run Simulation'' \<notin> set (demo_events 5 8)
   \<and> exec (demo_events 5 8) (demo_state 5 True) = Inr (demo_state 8 True)
   \<and> normal_vqe \<in> converged_methods (demo_state 5 True)
   \<and> converged_methods (demo_state 5 True) \<subseteq> converged_methods (demo_state 8 True)
   \<and> check_method normal_vqe (demo_state 5 True) = Inr (demo_state 5 True)
   \<and> step (Click ''Run Simulation'') (demo_state 5 True)
       = Inr (button_click ''Run Simulation'' (demo_state 5 True))
   \<and> \<not> converged_methods (demo_state 5 True)
         \<subseteq> converged_methods (button_click ''Run Simulation'' (demo_state 5 True))"
proof -
  have s: "session (demo_draws 0) (demo_events 1 5) = Inr (demo_state 5 True)"
    by (rule demo_session) simp_all
  have e: "exec (demo_events 5 8) (demo_state 5 True) = Inr (demo_state 8 True)"
    by (rule demo_exec) simp_all
  have c: "Click ''Run Simulation'' \<notin> set (demo_events 5 8)"
    by (auto simp add: demo_events_def)
  have n: "normal_vqe \<in> converged_methods (demo_state 5 True)" by (simp add: demo_state_def)
  note t = C8_set_only_grows [OF s, where ts = "demo_events 5 8" and m = normal_vqe
      and e = "Click ''Run Simulation''"
      and t = "button_click ''Run Simulation'' (demo_state 5 True)"]
  have "\<not> converged_methods (demo_state 5 True)
         \<subseteq> converged_methods (button_click ''Run Simulation'' (demo_state 5 True))"
    using t n by auto
  moreover have "step (Click ''Run Simulation'') (demo_state 5 True)
       = Inr (button_click ''Run Simulation'' (demo_state 5 True))"
    by simp
  ultimately show ?thesis using t s e c n by (auto simp del: step.simps)
qed

section \<open>Absence of errors\<close>

text \<open>
  C9. Every session ends in a state, never in an error, whatever the draws and the
  events. In that state every member of the convergence set has at least five energies,
  so the read of its last energy gives a value; a further tick and a further convergence
  check return states; and on a list of at least five energies \<^verbatim>\<open>max\<close> and \<^verbatim>\<open>min\<close>
  of the window are the greatest and the least of its last five elements. The branches
  are present in the embedding: on the empty list \<^verbatim>\<open>max\<close>, \<^verbatim>\<open>min\<close> and the read of
  the last element give an error.
\<close>

theorem C9_no_errors:
  "(\<exists>s. session d0 es = Inr s
      \<and> (\<forall>m \<in> converged_methods s.
            5 \<le> length (energy (data_storage s m))
            \<and> new_energy s m u = Inr (last (energy (data_storage s m)) + jitter m * (u - 0.5)))
      \<and> (\<exists>t. generate_new_data_point s d = Inr t)
      \<and> (\<exists>t. check_convergence s = Inr t)
      \<and> (\<exists>t. step e s = Inr t))
   \<and> (5 \<le> length xs \<longrightarrow>
        length (py_tail 5 xs) = 5
        \<and> py_max (py_tail 5 xs) = Inr (Max (set (drop (length xs - 5) xs)))
        \<and> py_min (py_tail 5 xs) = Inr (Min (set (drop (length xs - 5) xs))))
   \<and> py_max [] = Inl ValueError \<and> py_min [] = Inl ValueError
   \<and> py_last ([] :: real list) = Inl IndexError"
proof -
  obtain s where s: "session d0 es = Inr s" and i: "core_inv s"
    using session_inv_total [of d0 es] by blast
  have w: "conv_have_window s" using i by (simp add: core_inv_def)
  have 1: "5 \<le> length (energy (data_storage s m))
            \<and> new_energy s m u = Inr (last (energy (data_storage s m)) + jitter m * (u - 0.5))"
    if m: "m \<in> converged_methods s" for m
  proof -
    have l: "5 \<le> length (energy (data_storage s m))"
      using w m by (simp add: conv_have_window_def)
    then have "energy (data_storage s m) \<noteq> []" by auto
    then show ?thesis using l new_energy_converged [OF m] by simp
  qed
  have 2: "\<exists>t. generate_new_data_point s d = Inr t"
    by (rule generate_total [OF inv_readable [OF i]])
  have 3: "\<exists>t. check_convergence s = Inr t" by (simp add: check_convergence_eq)
  have 4: "\<exists>t. step e s = Inr t" by (rule step_total [OF i])
  have 5: "length (py_tail 5 xs) = 5
        \<and> py_max (py_tail 5 xs) = Inr (Max (set (drop (length xs - 5) xs)))
        \<and> py_min (py_tail 5 xs) = Inr (Min (set (drop (length xs - 5) xs)))"
    if "5 \<le> length xs"
    using that window_max [OF that] by (simp add: length_py_tail)
  have 6: "py_max [] = Inl ValueError \<and> py_min [] = Inl ValueError
           \<and> py_last ([] :: real list) = Inl IndexError"
    by (simp add: py_max_def py_min_def py_last_def)
  show ?thesis using s 1 2 3 4 5 6 by blast
qed

theorem C9_no_errors_witness:
  "session (demo_draws 0) (demo_events 1 8) = Inr (demo_state 8 True)
   \<and> normal_vqe \<in> converged_methods (demo_state 8 True)
   \<and> 5 \<le> length (energy (data_storage (demo_state 8 True) normal_vqe))
   \<and> new_energy (demo_state 8 True) normal_vqe 0 =
       Inr (last (energy (data_storage (demo_state 8 True) normal_vqe))
            + jitter normal_vqe * (0 - 0.5))
   \<and> 5 \<le> length [1, 2, 3, 4, 5, 6 :: real]
   \<and> py_max (py_tail 5 [1, 2, 3, 4, 5, 6]) = Inr 6
   \<and> py_min (py_tail 5 [1, 2, 3, 4, 5, 6]) = Inr 2"
proof -
  have s: "session (demo_draws 0) (demo_events 1 8) = Inr (demo_state 8 True)"
    by (rule demo_session) simp_all
  have n: "normal_vqe \<in> converged_methods (demo_state 8 True)" by (simp add: demo_state_def)
  note t = C9_no_errors [of "demo_draws 0" "demo_events 1 8" 0 "demo_draws 8"
      "Timer (demo_draws 8)" "[1, 2, 3, 4, 5, 6]"]
  have a: "5 \<le> length (energy (data_storage (demo_state 8 True) normal_vqe))
     \<and> new_energy (demo_state 8 True) normal_vqe 0 =
       Inr (last (energy (data_storage (demo_state 8 True) normal_vqe))
            + jitter normal_vqe * (0 - 0.5))"
    using t s n by (auto simp del: new_energy.simps step.simps)
  have b: "py_max (py_tail 5 [1, 2, 3, 4, 5, 6]) = Inr 6
     \<and> py_min (py_tail 5 [1, 2, 3, 4, 5, 6]) = Inr 2"
    using t by simp
  show ?thesis using s n a b by simp
qed

section \<open>The tick loop after a stop\<close>

text \<open>
  C10. A call of \<^verbatim>\<open>start_data_generation\<close> that finds the stop flag set, or three
  methods in the convergence set, returns without an entry in the timer queue. A reached
  state with the stop flag set has no tick in the queue, and whatever events follow, no
  tick ever runs again: the state stays as it is until the restart, and from the restart
  on it stays the state that the restart made, whose stop flag is cleared, whose counter
  is 0 and whose series are empty, with no tick in the queue.
\<close>

theorem C10_no_tick_after_stop:
  assumes "session d0 es = Inr s" and "simulation_stopped s"
  shows "\<not> timer_pending s
         \<and> exec ts s = Inr (if Click ''Run Simulation'' \<in> set ts
                              then button_click ''Run Simulation'' s else s)
         \<and> session d0 (es @ ts) = Inr (if Click ''Run Simulation'' \<in> set ts
                              then button_click ''Run Simulation'' s else s)
         \<and> \<not> timer_pending (button_click ''Run Simulation'' s)
         \<and> \<not> simulation_stopped (button_click ''Run Simulation'' s)
         \<and> step (Timer d) (button_click ''Run Simulation'' s)
             = Inr (button_click ''Run Simulation'' s)
         \<and> (simulation_stopped s0 \<or> 3 \<le> card (converged_methods s0) \<longrightarrow>
               (\<exists>t. start_data_generation (s0\<lparr>timer_pending := False\<rparr>) d = Inr t
                  \<and> \<not> timer_pending t))"
proof -
  have i: "core_inv s" using session_inv [OF assms(1)] .
  have p: "\<not> timer_pending s" using stopped_idle [OF i assms(2)] .
  have e: "exec ts s = Inr (if Click ''Run Simulation'' \<in> set ts
                              then button_click ''Run Simulation'' s else s)"
    by (rule idle_exec [OF p])
  have "session d0 (es @ ts) =
          exec ((Timer d0 # es) @ ts) (init_fields\<lparr>timer_pending := True\<rparr>)"
    by (simp only: session_exec append_Cons)
  also have "\<dots> = exec ts s"
    using assms(1) unfolding exec_append session_exec by simp
  finally have se: "session d0 (es @ ts) = Inr (if Click ''Run Simulation'' \<in> set ts
                              then button_click ''Run Simulation'' s else s)"
    using e by simp
  have rp: "\<not> timer_pending (button_click ''Run Simulation'' s)"
    using p by (simp add: reset_pending)
  have rs: "\<not> simulation_stopped (button_click ''Run Simulation'' s)"
    by (simp add: button_click_def)
  have st: "step (Timer d) (button_click ''Run Simulation'' s)
             = Inr (button_click ''Run Simulation'' s)"
    using rp by simp
  have h: "\<exists>t. start_data_generation (s0\<lparr>timer_pending := False\<rparr>) d = Inr t
                  \<and> \<not> timer_pending t"
    if "simulation_stopped s0 \<or> 3 \<le> card (converged_methods s0)"
    using that by (auto simp add: start_data_generation_def)
  show ?thesis using p e se rp rs st h by blast
qed

theorem C10_no_tick_after_stop_witness:
  "session quiet_draws (quiet_events 184) = Inr quiet_final
   \<and> simulation_stopped quiet_final
   \<and> \<not> timer_pending quiet_final
   \<and> session quiet_draws
       (quiet_events 184 @ [Timer quiet_draws, Click ''Run Simulation'', Timer quiet_draws])
       = Inr (button_click ''Run Simulation'' quiet_final)
   \<and> \<not> simulation_stopped (button_click ''Run Simulation'' quiet_final)
   \<and> \<not> timer_pending (button_click ''Run Simulation'' quiet_final)"
  using C10_no_tick_after_stop [OF quiet_session(1) quiet_session(3),
      where ts = "[Timer quiet_draws, Click ''Run Simulation'', Timer quiet_draws]"
      and d = quiet_draws] quiet_session(1,3)
  by simp

section \<open>Values after convergence\<close>

text \<open>
  C3. The value of a converged method does not stay within its jitter constant of the
  value it had when it converged. In the session below \<open>normal_vqe\<close> is outside the
  convergence set after four ticks and in it after the fifth, with the energy \<open>-0.8\<close>;
  all draws lie in the interval from 0 to 1, those of the next three ticks are 0, and
  after them the energy is \<open>-0.8015\<close>, which is 0.0015 away, more than the jitter 0.001.
\<close>

theorem C3_drift_counterexample:
  "session (demo_draws 0) (demo_events 1 4) = Inr (demo_state 4 True)
   \<and> normal_vqe \<notin> converged_methods (demo_state 4 True)
   \<and> session (demo_draws 0) (demo_events 1 5) = Inr (demo_state 5 True)
   \<and> normal_vqe \<in> converged_methods (demo_state 5 True)
   \<and> last (energy (data_storage (demo_state 5 True) normal_vqe)) = - 0.8
   \<and> demo_events 5 8 = [Timer (0, 0, 0), Timer (0, 0, 0), Timer (0, 0, 0)]
   \<and> exec (demo_events 5 8) (demo_state 5 True) = Inr (demo_state 8 True)
   \<and> session (demo_draws 0) (demo_events 1 8) = Inr (demo_state 8 True)
   \<and> last (energy (data_storage (demo_state 8 True) normal_vqe)) = - 0.8015
   \<and> draws_ok (demo_draws 0) \<and> draws_ok (demo_draws 1) \<and> draws_ok (demo_draws 2)
   \<and> draws_ok (demo_draws 3) \<and> draws_ok (demo_draws 4) \<and> draws_ok (0, 0, 0)
   \<and> jitter normal_vqe = 0.001
   \<and> \<not> \<bar>last (energy (data_storage (demo_state 8 True) normal_vqe))
          - last (energy (data_storage (demo_state 5 True) normal_vqe))\<bar>
        \<le> jitter normal_vqe"
proof -
  have s4: "session (demo_draws 0) (demo_events 1 4) = Inr (demo_state 4 True)"
    by (rule demo_session) simp_all
  have s5: "session (demo_draws 0) (demo_events 1 5) = Inr (demo_state 5 True)"
    by (rule demo_session) simp_all
  have s8: "session (demo_draws 0) (demo_events 1 8) = Inr (demo_state 8 True)"
    by (rule demo_session) simp_all
  have e: "exec (demo_events 5 8) (demo_state 5 True) = Inr (demo_state 8 True)"
    by (rule demo_exec) simp_all
  have "[5..<8] = [5, 6, 7]" by (simp add: upt_rec)
  then have ev: "demo_events 5 8 = [Timer (0, 0, 0), Timer (0, 0, 0), Timer (0, 0, 0)]"
    by (simp add: demo_events_def demo_draws_def)
  have c: "normal_vqe \<notin> converged_methods (demo_state 4 True)"
    "normal_vqe \<in> converged_methods (demo_state 5 True)"
    by (simp_all add: demo_state_def)
  have l5: "last (energy (data_storage (demo_state 5 True) normal_vqe)) = - 0.8"
    by (simp add: demo_last)
  have l8: "last (energy (data_storage (demo_state 8 True) normal_vqe)) = - 0.8015"
    by (simp add: demo_last)
  have ok: "draws_ok (0, 0, 0)" by (simp add: draw_ok_def)
  have far: "\<not> \<bar>last (energy (data_storage (demo_state 8 True) normal_vqe))
          - last (energy (data_storage (demo_state 5 True) normal_vqe))\<bar>
        \<le> jitter normal_vqe"
    unfolding l5 l8 by simp
  show ?thesis
    using s4 s5 s8 e ev c l5 l8 ok far demo_draws_ok by simp
qed

text \<open>
  C3, amended. A tick gives a converged method the value \<open>previous + jitter * (u - 0.5)\<close>
  with its draw \<open>u\<close>, where jitter is 0.001 for \<open>normal_vqe\<close> and \<open>vqe_uccsd_hybrid\<close> and
  0.0005 for \<open>vqe_uccsd_hybrid_zne\<close>. So, with draws in the interval from 0 to 1, one tick
  moves the value by at most half the jitter, and after \<open>n\<close> timer events the value is
  within \<open>n * jitter / 2\<close> of the value the method had when it was in the set first.
\<close>

theorem C3_jitter_walk:
  assumes "session d0 es = Inr s" and "m \<in> converged_methods s"
    and "list_all draws_ok ds"
  shows "(\<exists>t. exec (map Timer ds) s = Inr t
            \<and> \<bar>last (energy (data_storage t m)) - last (energy (data_storage s m))\<bar>
                \<le> real (length ds) * (jitter m / 2))
         \<and> (generate_new_data_point s d = Inr s' \<longrightarrow>
              last (energy (data_storage s' m)) =
                last (energy (data_storage s m)) + jitter m * (draw_of d m - 0.5))
         \<and> jitter normal_vqe = 0.001 \<and> jitter vqe_uccsd_hybrid = 0.001
         \<and> jitter vqe_uccsd_hybrid_zne = 0.0005"
proof -
  have i: "core_inv s" using session_inv [OF assms(1)] .
  have 1: "\<exists>t. exec (map Timer ds) s = Inr t
            \<and> \<bar>last (energy (data_storage t m)) - last (energy (data_storage s m))\<bar>
                \<le> real (length ds) * (jitter m / 2)"
    by (rule jitter_walk [OF i assms(2) assms(3)])
  have 2: "last (energy (data_storage s' m)) =
                last (energy (data_storage s m)) + jitter m * (draw_of d m - 0.5)"
    if "generate_new_data_point s d = Inr s'"
    by (rule converged_tick [OF that assms(2)])
  show ?thesis using 1 2 by simp
qed

theorem C3_jitter_walk_witness:
  "session (demo_draws 0) (demo_events 1 5) = Inr (demo_state 5 True)
   \<and> normal_vqe \<in> converged_methods (demo_state 5 True)
   \<and> list_all draws_ok [(0, 0, 0), (0, 0, 0), (0, 0, 0)]
   \<and> exec (map Timer [(0, 0, 0), (0, 0, 0), (0, 0, 0)]) (demo_state 5 True)
       = Inr (demo_state 8 True)
   \<and> \<bar>last (energy (data_storage (demo_state 8 True) normal_vqe))
       - last (energy (data_storage (demo_state 5 True) normal_vqe))\<bar>
       \<le> real (length [(0, 0, 0), (0, 0, 0), (0 :: real, 0 :: real, 0 :: real)])
          * (jitter normal_vqe / 2)"
proof -
  have s5: "session (demo_draws 0) (demo_events 1 5) = Inr (demo_state 5 True)"
    by (rule demo_session) simp_all
  have c: "normal_vqe \<in> converged_methods (demo_state 5 True)"
    by (simp add: demo_state_def)
  have ok: "list_all draws_ok [(0, 0, 0), (0, 0, 0), (0, 0, 0)]" by (simp add: draw_ok_def)
  have "[5..<8] = [5, 6, 7]" by (simp add: upt_rec)
  then have ev: "demo_events 5 8 = map Timer [(0, 0, 0), (0, 0, 0), (0, 0, 0)]"
    by (simp add: demo_events_def demo_draws_def)
  have e: "exec (map Timer [(0, 0, 0), (0, 0, 0), (0, 0, 0)]) (demo_state 5 True)
       = Inr (demo_state 8 True)"
    unfolding ev [symmetric] by (rule demo_exec) simp_all
  show ?thesis
    using C3_jitter_walk [OF s5 c ok] s5 c ok e by (auto simp del: exec.simps)
qed

section \<open>The sliding window of the series\<close>

text \<open>
  C4. In every state that a session reaches, the two lists of a method have one length,
  at most 50; the iterations are the last 50 numbers below \<open>current_iteration\<close> in
  ascending order (all of them when it is below 50); and paired up the lists are the last
  50 of the pairs appended to the series since the last restart (all of them when there
  are fewer than 50), oldest first. A completed tick appends the pair of the iteration and
  the energy of the tick and then drops the oldest pair if there are more than 50.
\<close>

theorem C4_last_fifty:
  assumes "session d0 es = Inr s"
  shows "length (iterations (data_storage s m)) \<le> 50
         \<and> length (energy (data_storage s m)) = length (iterations (data_storage s m))
         \<and> iterations (data_storage s m) = [current_iteration s - 50..<current_iteration s]
         \<and> zip (iterations (data_storage s m)) (energy (data_storage s m)) =
             drop (length (session_history d0 es m) - 50) (session_history d0 es m)
         \<and> (generate_new_data_point s d = Inr t \<and> new_energy s m (draw_of d m) = Inr v \<longrightarrow>
              zip (iterations (data_storage t m)) (energy (data_storage t m)) =
                drop (length (iterations (data_storage s m)) + 1 - 50)
                  (zip (iterations (data_storage s m)) (energy (data_storage s m))
                   @ [(current_iteration s, v)]))"
proof -
  have i: "core_inv s" using session_inv [OF assms] .
  have a: "aligned s" using i by (simp add: core_inv_def)
  have am: "length (iterations (data_storage s m)) = length (iterations (data_storage s normal_vqe))"
    "length (energy (data_storage s m)) = length (iterations (data_storage s normal_vqe))"
    "length (iterations (data_storage s normal_vqe)) \<le> 50"
    using a unfolding aligned_def by blast+
  have 1: "length (iterations (data_storage s m)) \<le> 50"
    and 2: "length (energy (data_storage s m)) = length (iterations (data_storage s m))"
    using am by simp_all
  have e: "exec (Timer d0 # es) (init_fields\<lparr>timer_pending := True\<rparr>) = Inr s"
    using assms by (simp only: session_exec)
  have "zip (iterations (data_storage s m)) (energy (data_storage s m)) =
          py_tail 50 (history (Timer d0 # es) (init_fields\<lparr>timer_pending := True\<rparr>) m [])"
    by (rule history_exec [OF init_pending_inv e]) (simp add: init_fields_def py_tail_def)
  then have 3: "zip (iterations (data_storage s m)) (energy (data_storage s m)) =
             drop (length (session_history d0 es m) - 50) (session_history d0 es m)"
    by (simp only: session_history_def py_tail_def)
  have 4: "zip (iterations (data_storage t m)) (energy (data_storage t m)) =
                drop (length (iterations (data_storage s m)) + 1 - 50)
                  (zip (iterations (data_storage s m)) (energy (data_storage s m))
                   @ [(current_iteration s, v)])"
    if g: "generate_new_data_point s d = Inr t" and n: "new_energy s m (draw_of d m) = Inr v"
  proof -
    have v: "v = next_value s d m" by (rule new_energy_value [OF g n])
    show ?thesis unfolding tick_zip [OF g a] v using 2 by (simp add: py_tail_def)
  qed
  have 5: "iterations (data_storage s m) = [current_iteration s - 50..<current_iteration s]"
    by (rule session_numbers [OF assms])
  show ?thesis using 1 2 3 4 5 by blast
qed

theorem C4_last_fifty_witness:
  "session (demo_draws 0) (demo_events 1 7) = Inr (demo_state 7 True)
   \<and> generate_new_data_point (demo_state 7 True) (demo_draws 7) = Inr (demo_state 8 True)
   \<and> new_energy (demo_state 7 True) normal_vqe (draw_of (demo_draws 7) normal_vqe)
       = Inr (- 0.8015)
   \<and> length (iterations (data_storage (demo_state 7 True) normal_vqe)) \<le> 50
   \<and> zip (iterations (data_storage (demo_state 7 True) normal_vqe))
         (energy (data_storage (demo_state 7 True) normal_vqe)) =
       drop (length (session_history (demo_draws 0) (demo_events 1 7) normal_vqe) - 50)
         (session_history (demo_draws 0) (demo_events 1 7) normal_vqe)
   \<and> zip (iterations (data_storage (demo_state 8 True) normal_vqe))
         (energy (data_storage (demo_state 8 True) normal_vqe)) =
       drop (length (iterations (data_storage (demo_state 7 True) normal_vqe)) + 1 - 50)
         (zip (iterations (data_storage (demo_state 7 True) normal_vqe))
              (energy (data_storage (demo_state 7 True) normal_vqe)) @ [(7, - 0.8015)])"
proof -
  have s: "session (demo_draws 0) (demo_events 1 7) = Inr (demo_state 7 True)"
    by (rule demo_session) simp_all
  have g: "generate_new_data_point (demo_state 7 True) (demo_draws 7) = Inr (demo_state 8 True)"
    using demo_tick [of 7 True] by simp
  have "new_energy (demo_state 7 True) normal_vqe (draw_of (demo_draws 7) normal_vqe)
          = Inr (next_value (demo_state 7 True) (demo_draws 7) normal_vqe)"
    by (rule new_energy_next_value [OF demo_readable])
  then have n: "new_energy (demo_state 7 True) normal_vqe (draw_of (demo_draws 7) normal_vqe)
          = Inr (- 0.8015)"
    by (simp add: demo_next_value del: new_energy.simps)
  have c: "current_iteration (demo_state 7 True) = 7" by (simp add: demo_state_def)
  show ?thesis
    using C4_last_fifty [OF s, where m = normal_vqe and d = "demo_draws 7"
        and t = "demo_state 8 True" and v = "- 0.8015"] s g n
    unfolding c by blast
qed

end
